(* ===== verification/Prelude.thy ===== *)
theory Prelude
  imports Main "HOL-Library.Word" "HOL-Library.Monad_Syntax"
begin

text \<open>
  Shared types and generic lemmas of the development: the C integer types of
  \<^verbatim>\<open>inc/types.h\<close> as machine words, the return codes, the convention for code
  without a defined result, and the word and list facts the components use.

  A C function whose execution is always defined is a plain HOL function on the state. A
  function that can fault, run into undefined behaviour or not return yields an
  \<^typ>\<open>'a option\<close>, with \<^const>\<open>None\<close> for exactly those executions; an error that
  the C code reports to its caller (\<open>FAILED\<close>, \<open>NULL\<close>, \<open>(void *)-1\<close>) is an
  ordinary value.
\<close>

unbundle bit_operations_syntax

subsection \<open>C integer types (inc/types.h)\<close>

type_synonym u8 = "8 word"
type_synonym u16 = "16 word"
type_synonym u32 = "32 word"

datatype retv = SUCCES | FAILED

abbreviation NULL :: u32 where
  "NULL \<equiv> 0"

abbreviation MINUS_ONE :: u32 where
  "MINUS_ONE \<equiv> - 1"

text \<open>
  C's \<open>/\<close> and \<open>%\<close> on signed integers truncate towards zero; HOL's \<^const>\<open>divide\<close>
  rounds down.
\<close>

definition c_div :: "int \<Rightarrow> int \<Rightarrow> int" where
  "c_div a b = sgn a * sgn b * (\<bar>a\<bar> div \<bar>b\<bar>)"

definition c_mod :: "int \<Rightarrow> int \<Rightarrow> int" where
  "c_mod a b = a - b * c_div a b"

lemma c_div_nonneg [simp]: "0 \<le> a \<Longrightarrow> 0 < b \<Longrightarrow> c_div a b = a div b"
  by (cases "a = 0") (auto simp: c_div_def)

lemma c_mod_nonneg [simp]: "0 \<le> a \<Longrightarrow> 0 < b \<Longrightarrow> c_mod a b = a mod b"
  by (simp add: c_mod_def minus_mult_div_eq_mod)

subsection \<open>Fact collections\<close>

named_theorems word_nat \<open>facts that move word statements to nat\<close>
named_theorems mem_simps \<open>reads after writes on byte memory\<close>
named_theorems frame_simps \<open>fields an operation leaves alone\<close>

subsection \<open>Words and nat\<close>

lemma unat_lt_32 [simp]: "unat (x :: u32) < 4294967296"
  using unsigned_less [of x] by simp

lemma unat_Suc_less:
  fixes x y :: "'a::len word"
  assumes "x < y"
  shows "unat (x + 1) = Suc (unat x)"
proof -
  have "Suc (unat x) \<le> unat y" using assms by (simp add: word_less_nat_alt)
  also have "unat y < 2 ^ LENGTH('a)" by (rule unsigned_less)
  finally show ?thesis by (simp add: unat_word_ariths)
qed

lemma loop_measure:
  fixes x y :: "'a::len word"
  shows "x < y \<Longrightarrow> unat y - unat (x + 1) < unat y - unat x"
  using unat_Suc_less [of x y] by (simp add: word_less_nat_alt)

lemma ucast_u8_u32_u8 [simp]: "ucast (ucast (b :: u8) :: u32) = b"
  by (rule bit_word_eqI) (auto simp: bit_simps)

lemma inc_le_iff:
  fixes x y z :: "'a::len word"
  shows "x < y \<Longrightarrow> x + 1 \<le> z \<longleftrightarrow> x < z"
  by (simp add: word_le_nat_alt word_less_nat_alt unat_Suc_less Suc_le_eq)

lemma sub_below:
  fixes c d n e :: "'a::len word"
  shows "c < d \<Longrightarrow> d < n \<Longrightarrow> n \<le> e \<Longrightarrow> e \<noteq> d - c"
  by (auto simp: word_le_nat_alt word_less_nat_alt unat_sub_if')

lemma unat_of_nat_32 [word_nat]: "n < 4294967296 \<Longrightarrow> unat (of_nat n :: u32) = n"
  by (simp add: unat_of_nat)

lemma of_nat_less_32:
  "m < 4294967296 \<Longrightarrow> n < 4294967296 \<Longrightarrow> (of_nat m < (of_nat n :: u32)) \<longleftrightarrow> m < n"
  by (simp add: word_less_nat_alt unat_of_nat_32)

lemma of_nat_le_32:
  "m < 4294967296 \<Longrightarrow> n < 4294967296 \<Longrightarrow> (of_nat m \<le> (of_nat n :: u32)) \<longleftrightarrow> m \<le> n"
  by (simp add: word_le_nat_alt unat_of_nat_32)

lemma of_nat_eq_32:
  "m < 4294967296 \<Longrightarrow> n < 4294967296 \<Longrightarrow> (of_nat m = (of_nat n :: u32)) \<longleftrightarrow> m = n"
  by (metis unat_of_nat_32)

lemma of_nat_eq_0_32: "m < 4294967296 \<Longrightarrow> (of_nat m = (0 :: u32)) \<longleftrightarrow> m = 0"
  using of_nat_eq_32 [of m 0] by simp

lemma of_nat_div_32:
  "m < 4294967296 \<Longrightarrow> n < 4294967296 \<Longrightarrow> of_nat m div of_nat n = (of_nat (m div n) :: u32)"
  by (simp add: word_unat_eq_iff unat_div unat_of_nat_32 le_less_trans [OF div_le_dividend])

lemma of_nat_mod_32:
  "m < 4294967296 \<Longrightarrow> n < 4294967296 \<Longrightarrow> of_nat m mod of_nat n = (of_nat (m mod n) :: u32)"
  by (simp add: word_unat_eq_iff unat_mod unat_of_nat_32 le_less_trans [OF mod_less_eq_dividend])

lemmas nat32 = unat_of_nat_32 of_nat_less_32 of_nat_le_32 of_nat_eq_32 of_nat_eq_0_32

subsection \<open>Lists and options\<close>

lemma bind_eq_Some: "Option.bind x f = Some z \<longleftrightarrow> (\<exists>y. x = Some y \<and> f y = Some z)"
  by (cases x) auto

end
