(* ===== verification/Memory.thy ===== *)
theory Memory
  imports Prelude
begin

text \<open>
  The byte-addressed memory the C code works on, with the 32-bit little-endian loads and
  stores of x86, and the two routines of \<^verbatim>\<open>src/tools/string.c\<close>.
  A memory maps every 32-bit address to a byte; address arithmetic wraps. Structures that
  the code reaches through pointers (page tables, the frame array, the headers of the
  kernel heap, the text screen) live in this memory at their C offsets.
\<close>

type_synonym memory = "u32 \<Rightarrow> u8"

definition load32 :: "memory \<Rightarrow> u32 \<Rightarrow> u32" where
  "load32 m a = ucast (m a) OR push_bit 8 (ucast (m (a + 1)))
     OR push_bit 16 (ucast (m (a + 2))) OR push_bit 24 (ucast (m (a + 3)))"

definition store32 :: "memory \<Rightarrow> u32 \<Rightarrow> u32 \<Rightarrow> memory" where
  "store32 m a v = m(a := ucast v, a + 1 := ucast (drop_bit 8 v),
     a + 2 := ucast (drop_bit 16 v), a + 3 := ucast (drop_bit 24 v))"

subsection \<open>Reads after writes\<close>

lemma load32_store32_same [simp, mem_simps]: "load32 (store32 m a v) a = v"
proof (rule bit_word_eqI)
  fix n assume "n < LENGTH(32)"
  then consider "n < 8" | "8 \<le> n" "n < 16" | "16 \<le> n" "n < 24" | "24 \<le> n" "n < 32"
    by fastforce
  then show "bit (load32 (store32 m a v) a) n \<longleftrightarrow> bit v n"
    by cases (auto simp: load32_def store32_def bit_simps)
qed

definition apart32 :: "u32 \<Rightarrow> u32 \<Rightarrow> bool" where
  "apart32 a b \<longleftrightarrow> 4 \<le> b - a \<and> 4 \<le> a - b"

lemma apart32_offsets:
  assumes "apart32 a b" and "i < 4" and "j < 4"
  shows "a + i \<noteq> b + j"
proof
  assume eq: "a + i = b + j"
  have "b - a = i - j" using eq by (simp add: algebra_simps)
  moreover have "a - b = j - i" using eq by (simp add: algebra_simps)
  ultimately have "4 \<le> i - j" and "4 \<le> j - i" using assms(1) by (auto simp: apart32_def)
  with assms(2,3) show False
    by (auto simp: word_le_nat_alt word_less_nat_alt unat_sub_if' split: if_splits)
qed

lemma store32_other:
  assumes "4 \<le> b - a"
  shows "store32 m a v b = m b"
proof -
  have "b \<noteq> a + i" if "i < 4" for i using assms that by (auto simp: algebra_simps)
  from this [of 0] this [of 1] this [of 2] this [of 3] show ?thesis by (simp add: store32_def)
qed

lemma load32_store32_apart [mem_simps]:
  assumes "apart32 a b"
  shows "load32 (store32 m a v) b = load32 m b"
proof -
  have "store32 m a v (b + j) = m (b + j)" if "j < 4" for j
    using apart32_offsets [OF assms _ that, of 0] apart32_offsets [OF assms _ that, of 1]
      apart32_offsets [OF assms _ that, of 2] apart32_offsets [OF assms _ that, of 3]
    by (auto simp: store32_def)
  from this [of 0] this [of 1] this [of 2] this [of 3] show ?thesis by (simp add: load32_def)
qed

lemma store32_store32 [mem_simps]: "store32 (store32 m a v) a w = store32 m a w"
  by (auto simp: store32_def fun_eq_iff)

lemma store32_load32 [mem_simps]: "store32 m a (load32 m a) = m"
proof -
  have "ucast (load32 m a) = m a" "ucast (drop_bit 8 (load32 m a)) = m (a + 1)"
    "ucast (drop_bit 16 (load32 m a)) = m (a + 2)" "ucast (drop_bit 24 (load32 m a)) = m (a + 3)"
    unfolding load32_def by (rule bit_word_eqI; auto simp: bit_simps dest: bit_imp_le_length)+
  then show ?thesis by (auto simp: store32_def fun_eq_iff)
qed

text \<open>The same facts for addresses given as natural numbers.\<close>

lemma apart32_nat:
  assumes "x + 4 \<le> y \<or> y + 4 \<le> x" and "x + 4 \<le> 4294967296" and "y + 4 \<le> 4294967296"
  shows "apart32 (of_nat x) (of_nat y)"
  using assms
  by (auto simp: apart32_def word_le_nat_alt unat_sub_if' unat_of_nat_32)

lemma load32_store32_nat [mem_simps]:
  assumes "x + 4 \<le> y \<or> y + 4 \<le> x" and "x + 4 \<le> 4294967296" and "y + 4 \<le> 4294967296"
  shows "load32 (store32 m (of_nat x) v) (of_nat y) = load32 m (of_nat y)"
  by (rule load32_store32_apart [OF apart32_nat [OF assms]])

lemma store32_nat_other [mem_simps]:
  assumes "y < x \<or> x + 4 \<le> y" and "x + 4 \<le> 4294967296" and "y < 4294967296"
  shows "store32 m (of_nat x) v (of_nat y) = m (of_nat y)"
  using assms
  by (auto intro!: store32_other simp: word_le_nat_alt unat_sub_if' unat_of_nat_32)

lemma load32_cong:
  "m a = m' a \<Longrightarrow> m (a + 1) = m' (a + 1) \<Longrightarrow> m (a + 2) = m' (a + 2) \<Longrightarrow>
   m (a + 3) = m' (a + 3) \<Longrightarrow> load32 m a = load32 m' a"
  by (simp add: load32_def)

lemma load32_cong_nat:
  assumes "\<And>j. j < 4 \<Longrightarrow> m (of_nat (y + j)) = m' (of_nat (y + j))"
  shows "load32 m (of_nat y) = load32 m' (of_nat y)"
  using assms [of 0] assms [of 1] assms [of 2] assms [of 3]
  by (intro load32_cong) (simp_all add: add.commute)

lemma load32_zero [simp]: "load32 (\<lambda>_. 0) a = 0"
  by (simp add: load32_def)

subsection \<open>memset and memcpy (src/tools/string.c)\<close>

text \<open>
  The loops of the C code, with the cursor as the loop variable. The value passed to
  \<open>memset\<close> is an \<open>int\<close>, stored through a \<open>char *\<close>, that is, its low byte.
\<close>

function memset_loop :: "memory \<Rightarrow> u32 \<Rightarrow> u32 \<Rightarrow> u32 \<Rightarrow> u32 \<Rightarrow> memory" where
  "memset_loop m buffer v sz cursor =
     (if cursor < sz
      then memset_loop (m(buffer + cursor := ucast v)) buffer v sz (cursor + 1)
      else m)"
  by pat_completeness auto
termination
  by (relation "measure (\<lambda>(m, buffer, v, sz, cursor). unat sz - unat cursor)")
    (auto simp: loop_measure)

declare memset_loop.simps [simp del]

definition memset :: "memory \<Rightarrow> u32 \<Rightarrow> u32 \<Rightarrow> u32 \<Rightarrow> memory" where
  "memset m ptr v sz = memset_loop m ptr v sz 0"

function memcpy_loop :: "memory \<Rightarrow> u32 \<Rightarrow> u32 \<Rightarrow> u32 \<Rightarrow> u32 \<Rightarrow> memory" where
  "memcpy_loop m to' from' n cursor =
     (if cursor < n
      then memcpy_loop (m(to' + cursor := m (from' + cursor))) to' from' n (cursor + 1)
      else m)"
  by pat_completeness auto
termination
  by (relation "measure (\<lambda>(m, to', from', n, cursor). unat n - unat cursor)")
    (auto simp: loop_measure)

declare memcpy_loop.simps [simp del]

definition memcpy :: "memory \<Rightarrow> u32 \<Rightarrow> u32 \<Rightarrow> u32 \<Rightarrow> memory" where
  "memcpy m dest src n = memcpy_loop m dest src n 0"

lemma memset_loop_at:
  "memset_loop m buffer v sz cursor b =
     (if cursor \<le> b - buffer \<and> b - buffer < sz then ucast v else m b)"
proof (induction m buffer v sz cursor rule: memset_loop.induct)
  case (1 m buffer v sz cursor)
  have at: "b = buffer + cursor \<longleftrightarrow> b - buffer = cursor" by (auto simp: algebra_simps)
  show ?case
  proof (cases "cursor < sz")
    case True
    with "1.IH" have "memset_loop m buffer v sz cursor b =
        (if cursor + 1 \<le> b - buffer \<and> b - buffer < sz then ucast v
         else (m(buffer + cursor := ucast v)) b)"
      by (subst memset_loop.simps) (simp add: fun_upd_def)
    with True show ?thesis by (auto simp: inc_le_iff at)
  next
    case False
    then show ?thesis by (subst memset_loop.simps) auto
  qed
qed

lemma memset_byte: "memset m ptr v sz b = (if b - ptr < sz then ucast v else m b)"
  by (simp add: memset_def memset_loop_at)

text \<open>C37. After \<open>memset\<close> exactly the \<open>size\<close> bytes from \<open>ptr\<close> on hold the low byte of
  the value; every other byte of memory is as before.\<close>

theorem memset_at:
  "memset m ptr v sz b = (if b - ptr < sz then ucast v else m b)"
  by (rule memset_byte)

lemma memcpy_loop_at:
  assumes "cursor \<le> n" and "n \<le> to' - from' \<or> to' = from'"
  shows "memcpy_loop m to' from' n cursor b =
     (if cursor \<le> b - to' \<and> b - to' < n then m (from' + (b - to')) else m b)"
  using assms
proof (induction m to' from' n cursor rule: memcpy_loop.induct)
  case (1 m to' from' n cursor)
  have at: "b = to' + cursor \<longleftrightarrow> b - to' = cursor" by (auto simp: algebra_simps)
  show ?case
  proof (cases "cursor < n")
    case True
    have read: "from' + (b - to') \<noteq> to' + cursor \<or> m (from' + cursor) = m (from' + (b - to'))"
      if "cursor < b - to'" "b - to' < n"
    proof (cases "to' = from'")
      case False
      have "to' - from' \<noteq> (b - to') - cursor"
        using "1.prems"(2) False that by (auto dest: sub_below)
      then show ?thesis by (auto simp: algebra_simps)
    qed auto
    from True "1.IH" "1.prems" have
      "memcpy_loop m to' from' n cursor b =
       (if cursor + 1 \<le> b - to' \<and> b - to' < n then (m(to' + cursor := m (from' + cursor))) (from' + (b - to'))
        else (m(to' + cursor := m (from' + cursor))) b)"
      by (subst memcpy_loop.simps) (simp add: inc_le_iff fun_upd_def)
    then have step: "memcpy_loop m to' from' n cursor b =
       (if cursor < b - to' \<and> b - to' < n then (m(to' + cursor := m (from' + cursor))) (from' + (b - to'))
        else if b - to' = cursor then m (from' + cursor) else m b)"
      using True by (simp add: inc_le_iff at)
    consider "cursor < b - to'" "b - to' < n" | "b - to' = cursor" | "b - to' < cursor \<or> n \<le> b - to'"
      by force
    then show ?thesis
      by cases (use step read True in \<open>auto\<close>)
  next
    case False
    then show ?thesis by (subst memcpy_loop.simps) auto
  qed
qed

lemma memcpy_byte:
  "n \<le> dest - src \<or> dest = src \<Longrightarrow>
   memcpy m dest src n b = (if b - dest < n then m (src + (b - dest)) else m b)"
  by (simp add: memcpy_def memcpy_loop_at)

text \<open>C38. \<open>memcpy\<close> copies the \<open>n\<close> bytes at \<open>src\<close> to \<open>dest\<close> and leaves the rest of
  memory alone, provided the destination does not start inside the source behind its first
  byte (a forward byte copy would overwrite what it has yet to read).\<close>

theorem memcpy_at:
  assumes "n \<le> dest - src \<or> dest = src"
  shows "memcpy m dest src n b = (if b - dest < n then m (src + (b - dest)) else m b)"
  using assms by (rule memcpy_byte)

theorem memcpy_at_witness:
  "memcpy (\<lambda>a. ucast a) 0x2000 0x1000 16 0x2005 = 5 \<and> memcpy (\<lambda>a. ucast a) 0x2000 0x1000 16 0x2010 = 0x10"
  using memcpy_at [of 16 "0x2000" "0x1000" "\<lambda>a. ucast a" "0x2005"]
    memcpy_at [of 16 "0x2000" "0x1000" "\<lambda>a. ucast a" "0x2010"]
  by simp

end
