(* ===== verification/PortIO.thy ===== *)
theory PortIO
  imports Memory
begin

text \<open>
  Port input and output (\<^verbatim>\<open>src/io.c\<close>). Everything the kernel sends to or reads from
  a device goes through \<open>outb\<close> and \<open>inb\<close>; the model records these accesses, in order,
  in a trace. What a device answers is not the kernel's code: it is the parameter
  \<open>dev\<close>, which gives the byte read from a port as a function of the accesses so far.
\<close>

datatype io_event = Out (ev_port: u16) (ev_byte: u8) | In (ev_port: u16) (ev_byte: u8)

type_synonym device = "io_event list \<Rightarrow> u16 \<Rightarrow> u8"

record machine =
  trace :: "io_event list"
  mem :: memory

definition io_wait :: "'a machine_scheme \<Rightarrow> 'a machine_scheme" where
  "io_wait s = s"

definition outb :: "u16 \<Rightarrow> u8 \<Rightarrow> 'a machine_scheme \<Rightarrow> 'a machine_scheme" where
  "outb port v s = s\<lparr>trace := trace s @ [Out port v]\<rparr>"

definition inb :: "device \<Rightarrow> u16 \<Rightarrow> 'a machine_scheme \<Rightarrow> u8 \<times> 'a machine_scheme" where
  "inb dev port s =
     (let ret = dev (trace s) port in (ret, s\<lparr>trace := trace s @ [In port ret]\<rparr>))"

lemma mem_outb [simp, frame_simps]: "mem (outb port v s) = mem s"
  by (simp add: outb_def)

lemma trace_outb [simp]: "trace (outb port v s) = trace s @ [Out port v]"
  by (simp add: outb_def)

lemma outb_outb: "outb p' v' (outb p v s) = s\<lparr>trace := trace s @ [Out p v, Out p' v']\<rparr>"
  by (simp add: outb_def)

subsection \<open>What a trace says about a port\<close>

text \<open>The bytes written to a port, in order, and the last one of them.\<close>

definition outs_to :: "u16 \<Rightarrow> io_event list \<Rightarrow> u8 list" where
  "outs_to port t = [ev_byte e. e \<leftarrow> t, e = Out port (ev_byte e)]"

definition last_out :: "u8 \<Rightarrow> u16 \<Rightarrow> io_event list \<Rightarrow> u8" where
  "last_out v0 port t = last (v0 # outs_to port t)"

lemma outs_to_append [simp]: "outs_to p (t @ t') = outs_to p t @ outs_to p t'"
  by (simp add: outs_to_def)

lemma outs_to_simps [simp]:
  "outs_to p [] = []"
  "outs_to p (Out p' v # t) = (if p' = p then [v] else []) @ outs_to p t"
  "outs_to p (In p' v # t) = outs_to p t"
  by (auto simp: outs_to_def)

lemma last_out_append [simp]: "last_out v0 p (t @ t') = last_out (last_out v0 p t) p t'"
  by (simp add: last_out_def)

lemma last_out_simps [simp]:
  "last_out v0 p [] = v0"
  "last_out v0 p (Out p' v # t) = last_out (if p' = p then v else v0) p t"
  "last_out v0 p (In p' v # t) = last_out v0 p t"
  by (auto simp: last_out_def)

end
