(* ===== verification/Printing.thy ===== *)
theory Printing
  imports Prelude
begin

text \<open>
  The interface between the kernel's output devices and the routines that print on them.
  A character sink accepts characters one at a time; a digit printer is a recursive
  routine that prints a number most significant digit first. The routines of
  \<^verbatim>\<open>src/tools.c\<close> and \<^verbatim>\<open>src/tools/kprintf/put_nbr_base.c\<close> are interpreted here, so
  that what they print is proved once.
\<close>

subsection \<open>Character sinks\<close>

locale char_sink =
  fixes put :: "'c \<Rightarrow> 's \<Rightarrow> 's" and emit :: "'c list \<Rightarrow> 's \<Rightarrow> 's"
  assumes emit_Nil: "emit [] s = s"
    and emit_emit: "emit ys (emit xs s) = emit (xs @ ys) s"
    and put_emit: "put c s = emit [c] s"
begin

lemma put_emit_snoc: "put c (emit xs s) = emit (xs @ [c]) s"
  by (simp add: put_emit emit_emit)

lemma emit_put: "emit xs (put c s) = emit (c # xs) s"
  by (simp add: put_emit emit_emit)

lemma fold_put: "fold put xs s = emit xs s"
  by (induction xs arbitrary: s) (simp_all add: emit_Nil emit_put)

end

subsection \<open>Positional notation\<close>

fun digits :: "nat \<Rightarrow> nat \<Rightarrow> nat list" where
  "digits b n = (if b < 2 \<or> n < b then [n] else digits b (n div b) @ [n mod b])"

declare digits.simps [simp del]

lemma digits_0 [simp]: "digits b 0 = [0]"
  by (subst digits.simps) auto

definition number_of :: "nat \<Rightarrow> nat list \<Rightarrow> nat" where
  "number_of b ds = foldl (\<lambda>n d. n * b + d) 0 ds"

lemma number_of_digits: "number_of b (digits b n) = n"
proof (induction b n rule: digits.induct)
  case (1 b n)
  then show ?case
    by (subst digits.simps) (auto simp: number_of_def mult.commute)
qed

lemma digits_bound: "2 \<le> b \<Longrightarrow> d \<in> set (digits b n) \<Longrightarrow> d < b"
proof (induction b n rule: digits.induct)
  case (1 b n)
  show ?case
  proof (cases "b < 2 \<or> n < b")
    case True
    with "1.prems" show ?thesis by (simp add: digits.simps [of b n])
  next
    case False
    with "1.prems" "1.IH" show ?thesis by (auto simp: digits.simps [of b n])
  qed
qed

lemma digits_not_Nil [simp]: "digits b n \<noteq> []"
  by (subst digits.simps) simp

lemma digits_no_leading_zero: "0 < n \<Longrightarrow> hd (digits b n) \<noteq> 0"
proof (induction b n rule: digits.induct)
  case (1 b n)
  show ?case
  proof (cases "b < 2 \<or> n < b")
    case True
    with "1.prems" show ?thesis by (subst digits.simps) simp
  next
    case False
    then have "0 < n div b" by (simp add: div_greater_zero_iff)
    with False "1.IH" show ?thesis by (subst digits.simps) simp
  qed
qed

subsection \<open>Digit printers\<close>

text \<open>
  \<open>pr n\<close> prints the positive number \<open>n\<close>, at most \<open>top\<close>, in base \<open>b\<close>: first the
  quotient, when there is one, then the last digit.
\<close>

locale digit_printer = char_sink put emit
  for put :: "'c \<Rightarrow> 's \<Rightarrow> 's" and emit :: "'c list \<Rightarrow> 's \<Rightarrow> 's" +
  fixes pr :: "nat \<Rightarrow> 's \<Rightarrow> 's option" and digit :: "nat \<Rightarrow> 'c" and b :: nat and top :: nat
  assumes base: "2 \<le> b"
    and pr: "0 < n \<Longrightarrow> n \<le> top \<Longrightarrow>
      pr n s = Option.bind (if b \<le> n then pr (n div b) s else Some s)
        (\<lambda>s. Some (put (digit (n mod b)) s))"
begin

lemma prints_digits:
  "0 < n \<Longrightarrow> n \<le> top \<Longrightarrow> pr n s = Some (emit (map digit (digits b n)) s)"
proof (induction n rule: less_induct)
  case (less n)
  show ?case
  proof (cases "b \<le> n")
    case True
    have "0 < n div b" using True base by (simp add: div_greater_zero_iff)
    moreover have "n div b < n" using less.prems base by simp
    moreover have "n div b \<le> top" using less.prems(2) calculation(2) by simp
    ultimately have "pr (n div b) s = Some (emit (map digit (digits b (n div b))) s)"
      by (auto intro: less.IH)
    moreover have "digits b n = digits b (n div b) @ [n mod b]"
      using True base by (subst digits.simps) simp
    ultimately show ?thesis
      using less.prems True by (simp add: pr put_emit_snoc)
  next
    case False
    then have "digits b n = [n]" by (subst digits.simps) simp
    with False less.prems show ?thesis by (simp add: pr put_emit)
  qed
qed

end

end
