(* ===== verification/Uart.thy ===== *)
theory Uart
  imports PortIO Printing
begin

text \<open>
  The byte-level part of the UART driver (\<^verbatim>\<open>src/uart.c\<close>) and the helpers of
  \<^verbatim>\<open>src/tools.c\<close> that print through it. Set-up of the UART and its interrupt handler are in the theory
  of the drivers, since they need the screen and the handler table.

  A C string is the list of the characters from the pointer on; the end of the list stands
  for the terminating NUL, and a NUL inside the list ends the string there, as it does in
  C. A pointer that may be \<open>NULL\<close> is an \<^typ>\<open>string option\<close>.
\<close>

type_synonym cstring = "string option"

abbreviation NUL :: char where
  "NUL \<equiv> CHR 0x00"

record uart = machine +
  uart_addr :: u16

definition SERIAL_PORT :: u16 where "SERIAL_PORT = 0x3F8"

subsection \<open>strlen (src/tools.c)\<close>

fun strlen_loop :: "string \<Rightarrow> int \<Rightarrow> int" where
  "strlen_loop [] i = i"
| "strlen_loop (c # cs) i = (if c = NUL then i else strlen_loop cs (i + 1))"

definition strlen :: "cstring \<Rightarrow> int" where
  "strlen str = (case str of None \<Rightarrow> 0 | Some cs \<Rightarrow> strlen_loop cs 0)"

subsection \<open>Sending (src/uart.c)\<close>

definition uart_is_init :: "'a uart_scheme \<Rightarrow> bool" where
  "uart_is_init s = (if uart_addr s \<noteq> 0 then True else False)"

definition uart_send :: "u8 \<Rightarrow> 'a uart_scheme \<Rightarrow> 'a uart_scheme" where
  "uart_send c s = outb (uart_addr s) c s"

definition uart_putchar :: "u8 \<Rightarrow> 'a uart_scheme \<Rightarrow> 'a uart_scheme" where
  "uart_putchar c s = uart_send c s"

text \<open>
  \<open>msg[i]\<close> for an index below \<open>strlen msg\<close>, hence inside the list; the loop counts
  \<open>i\<close> up to \<open>size\<close>.
\<close>

function uart_putstr_loop :: "string \<Rightarrow> nat \<Rightarrow> nat \<Rightarrow> 'a uart_scheme \<Rightarrow> 'a uart_scheme" where
  "uart_putstr_loop msg sz i s =
     (if i < sz then uart_putstr_loop msg sz (i + 1) (uart_putchar (of_char (msg ! i)) s) else s)"
  by pat_completeness auto
termination
  by (relation "measure (\<lambda>(msg, sz, i, s). sz - i)") auto

declare uart_putstr_loop.simps [simp del]

definition uart_putstr :: "cstring \<Rightarrow> 'a uart_scheme \<Rightarrow> 'a uart_scheme" where
  "uart_putstr msg s =
     (let sz = nat (strlen msg)
      in case msg of None \<Rightarrow> s | Some m \<Rightarrow> uart_putstr_loop m sz 0 s)"

text \<open>A \<open>const void *\<close> buffer is given by the bytes at its offsets.\<close>

function uart_send_buffer_loop ::
  "(u32 \<Rightarrow> u8) \<Rightarrow> u32 \<Rightarrow> u32 \<Rightarrow> 'a uart_scheme \<Rightarrow> 'a uart_scheme" where
  "uart_send_buffer_loop buffer sz i s =
     (if i < sz then uart_send_buffer_loop buffer sz (i + 1) (uart_send (buffer i) s) else s)"
  by pat_completeness auto
termination
  by (relation "measure (\<lambda>(buffer, sz, i, s). unat sz - unat i)") (auto simp: loop_measure)

declare uart_send_buffer_loop.simps [simp del]

definition uart_send_buffer :: "(u32 \<Rightarrow> u8) \<Rightarrow> u32 \<Rightarrow> 'a uart_scheme \<Rightarrow> 'a uart_scheme" where
  "uart_send_buffer buffer sz s = uart_send_buffer_loop buffer sz 0 s"

definition uart_recv :: "device \<Rightarrow> 'a uart_scheme \<Rightarrow> u8 \<times> 'a uart_scheme" where
  "uart_recv dev s =
     (let (r, s1) = inb dev (uart_addr s + 2) s;
          interr = r AND 0x0F
      in if interr = 0x04 then inb dev (uart_addr s1) s1 else (0, s1))"

subsection \<open>my\_put\_nbr (src/tools.c)\<close>

definition INT_MIN :: int where "INT_MIN = - 2147483648"
definition INT_MAX :: int where "INT_MAX = 2147483647"

text \<open>
  \<open>nb = -nb\<close> overflows for the least \<open>int\<close>: no defined result.
\<close>

function my_put_nbr :: "int \<Rightarrow> 'a uart_scheme \<Rightarrow> 'a uart_scheme option" where
  "my_put_nbr nb0 s0 =
     (if nb0 < 0 \<and> nb0 \<le> INT_MIN then None
      else
        let s1 = (if nb0 < 0 then uart_putchar (of_char (CHR ''-'')) s0 else s0);
            nb = (if nb0 < 0 then - nb0 else nb0)
        in do {
          s2 \<leftarrow> (if nb > 9 then my_put_nbr (c_div nb 10) s1 else Some s1);
          Some (uart_putchar (of_int (c_mod nb 10 + of_char (CHR ''0''))) s2)
        })"
  by pat_completeness auto
termination
  by (relation "measure (\<lambda>(nb, s). nat \<bar>nb\<bar>)") auto

declare my_put_nbr.simps [simp del]

subsection \<open>What the routines send\<close>

definition uart_emit :: "u8 list \<Rightarrow> 'a uart_scheme \<Rightarrow> 'a uart_scheme" where
  "uart_emit bs s = s\<lparr>trace := trace s @ map (Out (uart_addr s)) bs\<rparr>"

interpretation uart_out: char_sink uart_putchar uart_emit
  by unfold_locales (simp_all add: uart_putchar_def uart_send_def outb_def uart_emit_def)

lemma strlen_loop_eq: "strlen_loop cs i = i + int (length (takeWhile (\<lambda>c. c \<noteq> NUL) cs))"
  by (induction cs arbitrary: i) auto

lemma strlen_eq: "strlen str = (case str of None \<Rightarrow> 0 | Some cs \<Rightarrow> int (length (takeWhile (\<lambda>c. c \<noteq> NUL) cs)))"
  by (simp add: strlen_def strlen_loop_eq split: option.splits)

lemma uart_putstr_loop_eq:
  "sz \<le> length msg \<Longrightarrow> uart_putstr_loop msg sz i s = uart_emit (map of_char (drop i (take sz msg))) s"
proof (induction msg sz i s rule: uart_putstr_loop.induct)
  case (1 msg sz i s)
  show ?case
  proof (cases "i < sz")
    case True
    with "1.prems" have "drop i (take sz msg) = msg ! i # drop (i + 1) (take sz msg)"
      by (simp add: Cons_nth_drop_Suc [symmetric])
    with True 1 show ?thesis
      by (subst uart_putstr_loop.simps) (simp add: uart_out.emit_put)
  next
    case False
    then show ?thesis
      by (subst uart_putstr_loop.simps) (simp add: uart_out.emit_Nil)
  qed
qed

lemma uart_putstr_eq:
  "uart_putstr msg s = uart_emit (case msg of None \<Rightarrow> [] | Some m \<Rightarrow> map of_char (takeWhile (\<lambda>c. c \<noteq> NUL) m)) s"
  by (auto simp: uart_putstr_def strlen_eq uart_putstr_loop_eq uart_out.emit_Nil length_takeWhile_le
      takeWhile_eq_take [symmetric] split: option.splits)

text \<open>A buffer is sent byte by byte, from the lowest address up.\<close>

lemma uart_send_buffer_loop_eq:
  "uart_send_buffer_loop buffer sz i s =
     uart_emit (map (\<lambda>k. buffer (of_nat k)) [unat i ..< unat sz]) s"
proof (induction buffer sz i s rule: uart_send_buffer_loop.induct)
  case (1 buffer sz i s)
  show ?case
  proof (cases "i < sz")
    case True
    then have "[unat i ..< unat sz] = unat i # [unat (i + 1) ..< unat sz]"
      by (simp add: unat_Suc_less upt_conv_Cons word_less_nat_alt)
    with True 1 show ?thesis
      by (subst uart_send_buffer_loop.simps)
        (simp add: uart_out.emit_put uart_putchar_def [symmetric] del: upt_Suc)
  next
    case False
    then show ?thesis
      by (subst uart_send_buffer_loop.simps) (simp add: uart_out.emit_Nil word_less_nat_alt)
  qed
qed

lemma uart_send_buffer_eq:
  "uart_send_buffer buffer sz s = uart_emit (map (\<lambda>k. buffer (of_nat k)) [0 ..< unat sz]) s"
  by (simp add: uart_send_buffer_def uart_send_buffer_loop_eq)

interpretation my_put_nbr_dec:
  digit_printer uart_putchar uart_emit "\<lambda>n. my_put_nbr (int n)" "\<lambda>d. 48 + of_nat d" 10 2147483647
proof unfold_locales
  fix n s assume "(0::nat) < n" "n \<le> 2147483647"
  show "my_put_nbr (int n) s = Option.bind
      (if 10 \<le> n then my_put_nbr (int (n div 10)) s else Some s)
      (\<lambda>s. Some (uart_putchar (48 + of_nat (n mod 10)) s))"
  proof -
    have "int n mod 10 = int (n mod 10)" and "int n div 10 = int (n div 10)"
      by (simp_all add: of_nat_mod of_nat_div)
    with \<open>0 < n\<close> show ?thesis
      by (subst my_put_nbr.simps) (simp add: Let_def add.commute)
  qed
qed simp

text \<open>C40. \<open>my_put_nbr\<close> prints every \<open>int\<close> but the least one in decimal: a minus sign for a
  negative number, then its digits without leading zeros.\<close>

theorem my_put_nbr_decimal:
  fixes s :: "'a uart_scheme"
  assumes "INT_MIN < nb" and "nb \<le> INT_MAX"
  shows "my_put_nbr nb s =
    Some (uart_emit ((if nb < 0 then [45] else []) @ map (\<lambda>d. 48 + of_nat d) (digits 10 (nat \<bar>nb\<bar>))) s)"
proof (cases "nb = 0")
  case True
  then show ?thesis
    by (subst my_put_nbr.simps) (simp add: digits.simps uart_out.put_emit)
next
  case False
  have pos: "my_put_nbr \<bar>nb\<bar> s' = Some (uart_emit (map (\<lambda>d. 48 + of_nat d) (digits 10 (nat \<bar>nb\<bar>))) s')"
    for s' :: "'a uart_scheme"
    using my_put_nbr_dec.prints_digits [of "nat \<bar>nb\<bar>" s'] False assms
    by (simp add: INT_MIN_def INT_MAX_def)
  show ?thesis
  proof (cases "nb < 0")
    case True
    have "my_put_nbr nb s = my_put_nbr \<bar>nb\<bar> (uart_putchar 45 s)"
      using True assms by (subst (1 2) my_put_nbr.simps) (simp add: Let_def)
    with pos True show ?thesis by (simp add: uart_out.emit_put)
  next
    case False
    with pos [of s] show ?thesis by simp
  qed
qed

theorem my_put_nbr_decimal_witness:
  "my_put_nbr (- 305) \<lparr>trace = [], mem = (\<lambda>_. 0), uart_addr = 0x3F8\<rparr> =
   Some \<lparr>trace = map (Out 0x3F8) [45, 51, 48, 53], mem = (\<lambda>_. 0), uart_addr = 0x3F8\<rparr>"
  using my_put_nbr_decimal [of "- 305" "\<lparr>trace = [], mem = (\<lambda>_. 0), uart_addr = 0x3F8\<rparr>"]
  by (simp add: INT_MIN_def INT_MAX_def uart_emit_def digits.simps)

end
