(* ===== verification/Kprintf.thy ===== *)
theory Kprintf
  imports Uart
begin

text \<open>
  Formatted kernel output: \<^verbatim>\<open>src/tools/kwrite/kwrite.c\<close> and the three files of
  \<^verbatim>\<open>src/tools/kprintf/\<close>. The state adds the static counter of \<open>nbr_disp_bytes\<close>
  to the UART's. The definitions follow the C call structure down to the port write of
  each character; the lemmas then show that the whole of \<open>kprintf\<close> appends one rendered
  string to the UART's output, which is how the other components use it.
\<close>

record console = uart +
  disp_bytes :: u32

datatype kwrite_output = KWRITE_UART

definition kwrite :: "kwrite_output \<Rightarrow> (u32 \<Rightarrow> u8) \<Rightarrow> u32 \<Rightarrow> 'a console_scheme \<Rightarrow> 'a console_scheme" where
  "kwrite out buf n s = (case out of KWRITE_UART \<Rightarrow> uart_send_buffer buf n s)"

subsection \<open>Characters and strings (kprintf\_tools.c)\<close>

definition nbr_disp_bytes :: "'a console_scheme \<Rightarrow> u32 \<times> 'a console_scheme" where
  "nbr_disp_bytes s = (let n = disp_bytes s + 1 in (n, s\<lparr>disp_bytes := n\<rparr>))"

definition kprintf_putchar :: "char \<Rightarrow> 'a console_scheme \<Rightarrow> 'a console_scheme" where
  "kprintf_putchar c s = snd (nbr_disp_bytes (kwrite KWRITE_UART (\<lambda>_. of_char c) 1 s))"

fun my_strlen_loop :: "string \<Rightarrow> int \<Rightarrow> int" where
  "my_strlen_loop [] cursor = cursor"
| "my_strlen_loop (c # cs) cursor = (if c \<noteq> NUL then my_strlen_loop cs (cursor + 1) else cursor)"

definition my_strlen :: "string \<Rightarrow> int" where
  "my_strlen str = my_strlen_loop str 0"

fun my_putstr_loop :: "string \<Rightarrow> 'a console_scheme \<Rightarrow> 'a console_scheme" where
  "my_putstr_loop [] s = s"
| "my_putstr_loop (c # cs) s = (if c \<noteq> NUL then my_putstr_loop cs (kprintf_putchar c s) else s)"

definition my_putstr :: "cstring \<Rightarrow> 'a console_scheme \<Rightarrow> 'a console_scheme" where
  "my_putstr str s = (case str of None \<Rightarrow> s | Some cs \<Rightarrow> my_putstr_loop cs s)"

subsection \<open>Numbers (put\_nbr\_base.c)\<close>

text \<open>
  Not returning (an unbounded recursion) and undefined arithmetic (a division by the
  length of an empty base, the negation of the least \<open>int\<close>) are \<^const>\<open>None\<close>.
\<close>

partial_function (option) my_put_nbr_base ::
  "int \<Rightarrow> string \<Rightarrow> 'a console_scheme \<Rightarrow> 'a console_scheme option" where
  "my_put_nbr_base num base s =
     (let len = my_strlen base
      in if num < 0
         then (if num = INT_MIN then None
               else my_put_nbr_base (- num) base (kprintf_putchar (CHR ''-'') s))
         else if len = 0 then None
         else
           let remainder = c_mod num len;
               start = c_div (num - remainder) len
           in Option.bind (if start \<noteq> 0 then my_put_nbr_base start base s else Some s)
                (\<lambda>s. Some (kprintf_putchar (base ! nat remainder) s)))"

partial_function (option) my_put_ulong_base ::
  "u32 \<Rightarrow> string \<Rightarrow> 'a console_scheme \<Rightarrow> 'a console_scheme option" where
  "my_put_ulong_base num base s =
     (if num = 0 then Some s
      else
        let len_base = my_strlen base
        in if len_base = 0 then None
           else Option.bind (my_put_ulong_base (num div of_int len_base) base s)
                  (\<lambda>s. Some (kprintf_putchar (base ! unat (num mod of_int len_base)) s)))"

partial_function (option) my_put_uint_base ::
  "u32 \<Rightarrow> string \<Rightarrow> 'a console_scheme \<Rightarrow> 'a console_scheme option" where
  "my_put_uint_base num base s =
     (if num = 0 then Some s
      else
        let len_base = my_strlen base
        in if len_base = 0 then None
           else Option.bind (my_put_uint_base (num div of_int len_base) base s)
                  (\<lambda>s. Some (kprintf_putchar (base ! unat (num mod of_int len_base)) s)))"

subsection \<open>Escaped strings (kprintf\_tools.c)\<close>

text \<open>\<open>char\<close> is signed on this target.\<close>

definition schar :: "char \<Rightarrow> int" where
  "schar c = sint (of_char c :: u8)"

fun my_full_putstr_loop :: "string \<Rightarrow> 'a console_scheme \<Rightarrow> 'a console_scheme option" where
  "my_full_putstr_loop [] s = Some s"
| "my_full_putstr_loop (c # cs) s =
     (if c = NUL then Some s
      else Option.bind
        (if schar c < 32 \<or> schar c \<ge> 127
         then
           let s1 = kprintf_putchar (CHR 0x5C) s;
               s2 = (if schar c < 32 \<and> schar c \<ge> 8 then my_putstr (Some ''0'') s1
                     else if schar c < 8 then my_putstr (Some ''00'') s1
                     else s1)
           in my_put_nbr_base (schar c) ''01234567'' s2
         else Some (kprintf_putchar c s))
        (my_full_putstr_loop cs))"

definition my_full_putstr :: "cstring \<Rightarrow> 'a console_scheme \<Rightarrow> 'a console_scheme option" where
  "my_full_putstr str s = (case str of None \<Rightarrow> None | Some cs \<Rightarrow> my_full_putstr_loop cs s)"

subsection \<open>Conversions (kprintf.c)\<close>

definition dec_base :: string where "dec_base = ''0123456789''"
definition hex_base :: string where "hex_base = ''0123456789abcdef''"
definition HEX_base :: string where "HEX_base = ''0123456789ABCDEF''"
definition oct_base :: string where "oct_base = ''01234567''"
definition bin_base :: string where "bin_base = ''01''"

definition display_uint :: "u32 \<Rightarrow> 'a console_scheme \<Rightarrow> 'a console_scheme option" where
  "display_uint n s =
     (if n = 0 then Some (kprintf_putchar (CHR ''0'') s) else my_put_uint_base n dec_base s)"

definition display_pointer :: "u32 \<Rightarrow> 'a console_scheme \<Rightarrow> 'a console_scheme option" where
  "display_pointer n s =
     (if n \<noteq> 0 then my_put_ulong_base n hex_base (my_putstr (Some ''0x'') s)
      else Some (my_putstr (Some ''(nil)'') s))"

definition display_invalid_flag :: "char \<Rightarrow> 'a console_scheme \<Rightarrow> 'a console_scheme" where
  "display_invalid_flag flag s = kprintf_putchar flag (kprintf_putchar (CHR ''%'') s)"

definition format_bytes_size_value ::
  "u32 \<Rightarrow> string \<Rightarrow> u32 \<Rightarrow> 'a console_scheme \<Rightarrow> 'a console_scheme option" where
  "format_bytes_size_value v unit_name unit_size s =
     do {
       s \<leftarrow> display_uint (v div unit_size) s;
       s \<leftarrow> (if unit_size \<noteq> 1
             then
               let decimal = (v mod unit_size) * 1000 div unit_size
               in if decimal > 0
                  then display_uint ((v mod unit_size) * 1000 div unit_size)
                         (kprintf_putchar (CHR ''.'') s)
                  else Some s
             else Some s);
       Some (my_putstr (Some unit_name) s)
     }"

definition format_bytes_size :: "u32 \<Rightarrow> 'a console_scheme \<Rightarrow> 'a console_scheme option" where
  "format_bytes_size n s =
     (let kb = 1024
      in if n < kb then format_bytes_size_value n ''B'' 1 s
         else if n < kb * kb then format_bytes_size_value n ''Kb'' kb s
         else if n < kb * kb * kb then format_bytes_size_value n ''Mb'' (kb * kb) s
         else format_bytes_size_value n ''Gb'' (kb * kb * kb) s)"

subsection \<open>kprintf\<close>

text \<open>
  The variable arguments: a 32-bit integer or a string pointer each. Fetching an argument
  that was not passed, or one of the other kind, has no defined result.
\<close>

datatype va = VInt u32 | VStr cstring

fun va_int :: "va list \<Rightarrow> (u32 \<times> va list) option" where
  "va_int (VInt n # ap) = Some (n, ap)"
| "va_int _ = None"

fun va_str :: "va list \<Rightarrow> (cstring \<times> va list) option" where
  "va_str (VStr p # ap) = Some (p, ap)"
| "va_str _ = None"

definition with_int :: "(u32 \<Rightarrow> 's \<Rightarrow> 's option) \<Rightarrow> va list \<Rightarrow> 's \<Rightarrow> (va list \<times> 's) option" where
  "with_int f ap s = do { (n, ap) \<leftarrow> va_int ap; s \<leftarrow> f n s; Some (ap, s) }"

definition with_str :: "(cstring \<Rightarrow> 's \<Rightarrow> 's option) \<Rightarrow> va list \<Rightarrow> 's \<Rightarrow> (va list \<times> 's) option" where
  "with_str f ap s = do { (p, ap) \<leftarrow> va_str ap; s \<leftarrow> f p s; Some (ap, s) }"

definition display_var :: "char \<Rightarrow> va list \<Rightarrow> 'a console_scheme \<Rightarrow> (va list \<times> 'a console_scheme) option" where
  "display_var f ap s =
     (if f = CHR ''%'' then Some (ap, kprintf_putchar (CHR ''%'') s)
      else if f = CHR ''s'' then with_str (\<lambda>p s. Some (my_putstr p s)) ap s
      else if f = CHR ''d'' \<or> f = CHR ''i'' then with_int (\<lambda>n. my_put_nbr_base (sint n) dec_base) ap s
      else if f = CHR ''c'' then with_int (\<lambda>n s. Some (kprintf_putchar (char_of (unat n)) s)) ap s
      else if f = CHR ''o'' then with_int (\<lambda>n. my_put_uint_base n oct_base) ap s
      else if f = CHR ''u'' then with_int display_uint ap s
      else if f = CHR ''x'' then with_int (\<lambda>n. my_put_uint_base n hex_base) ap s
      else if f = CHR ''X'' then with_int (\<lambda>n. my_put_uint_base n HEX_base) ap s
      else if f = CHR ''p'' then with_int display_pointer ap s
      else if f = CHR ''b'' then with_int (\<lambda>n. my_put_nbr_base (sint n) bin_base) ap s
      else if f = CHR ''B'' then with_int format_bytes_size ap s
      else if f = CHR ''S'' then with_str my_full_putstr ap s
      else Some (ap, display_invalid_flag f s))"

text \<open>
  A format that ends in a single \<open>%\<close> makes the loop step over the terminating NUL and
  read past the string: no defined result.
\<close>

fun kprintf_loop :: "string \<Rightarrow> va list \<Rightarrow> 'a console_scheme \<Rightarrow> 'a console_scheme option" where
  "kprintf_loop [] ap s = Some s"
| "kprintf_loop [c] ap s =
     (if c = NUL then Some s
      else if c = CHR ''%'' then None
      else Some (kprintf_putchar c s))"
| "kprintf_loop (c # f # rest) ap s =
     (if c = NUL then Some s
      else if c = CHR ''%''
      then Option.bind (display_var f ap s) (\<lambda>(ap, s). kprintf_loop rest ap s)
      else kprintf_loop (f # rest) ap (kprintf_putchar c s))"

definition kprintf :: "string \<Rightarrow> va list \<Rightarrow> 'a console_scheme \<Rightarrow> (u32 \<times> 'a console_scheme) option" where
  "kprintf str_format ap s =
     do {
       s \<leftarrow> kprintf_loop str_format ap s;
       let (n, s) = nbr_disp_bytes s;
       Some (n - 1, s)
     }"

subsection \<open>Output as one string\<close>

definition kp_emit :: "string \<Rightarrow> 'a console_scheme \<Rightarrow> 'a console_scheme" where
  "kp_emit cs s = s\<lparr>trace := trace s @ map (\<lambda>c. Out (uart_addr s) (of_char c)) cs,
     disp_bytes := disp_bytes s + of_nat (length cs)\<rparr>"

lemma kprintf_putchar_eq:
  "kprintf_putchar c s = s\<lparr>trace := trace s @ [Out (uart_addr s) (of_char c)],
     disp_bytes := disp_bytes s + 1\<rparr>"
  by (simp add: kprintf_putchar_def kwrite_def uart_send_buffer_eq uart_emit_def nbr_disp_bytes_def
      Let_def)

interpretation kp_out: char_sink kprintf_putchar kp_emit
  by unfold_locales (simp_all add: kprintf_putchar_eq kp_emit_def algebra_simps)

lemma my_strlen_loop_eq: "my_strlen_loop cs i = i + int (length (takeWhile (\<lambda>c. c \<noteq> NUL) cs))"
  by (induction cs arbitrary: i) auto

abbreviation until_nul :: "string \<Rightarrow> string" where
  "until_nul \<equiv> takeWhile (\<lambda>c. c \<noteq> NUL)"

lemma until_nul_id: "NUL \<notin> set cs \<Longrightarrow> until_nul cs = cs"
  by (subst takeWhile_eq_all_conv) auto

lemma my_strlen_eq: "NUL \<notin> set cs \<Longrightarrow> my_strlen cs = int (length cs)"
  by (simp add: my_strlen_def my_strlen_loop_eq until_nul_id)

lemma my_putstr_loop_eq: "my_putstr_loop cs s = kp_emit (until_nul cs) s"
  by (induction cs arbitrary: s) (simp_all add: kp_out.emit_Nil kp_out.emit_put)

lemma my_putstr_eq:
  "my_putstr str s = kp_emit (case str of None \<Rightarrow> [] | Some cs \<Rightarrow> until_nul cs) s"
  by (simp add: my_putstr_def my_putstr_loop_eq kp_out.emit_Nil split: option.splits)

text \<open>A base is a string of at least two characters that the C code can measure.\<close>

definition good_base :: "string \<Rightarrow> bool" where
  "good_base base \<longleftrightarrow> 2 \<le> length base \<and> NUL \<notin> set base"

lemma good_bases [simp]:
  "good_base dec_base" "good_base hex_base" "good_base HEX_base" "good_base oct_base"
  "good_base bin_base" "good_base ''01234567''"
  by (simp_all add: good_base_def dec_base_def hex_base_def HEX_base_def oct_base_def bin_base_def)

lemma nbr_base_step:
  assumes "good_base base" and "0 < n"
  shows "my_put_nbr_base (int n) base s = Option.bind
    (if length base \<le> n then my_put_nbr_base (int (n div length base)) base s else Some s)
    (\<lambda>s. Some (kprintf_putchar (base ! (n mod length base)) s))"
proof -
  let ?b = "length base"
  have b: "my_strlen base = int ?b" "0 < ?b" using assms(1) by (auto simp: good_base_def my_strlen_eq)
  have r: "c_mod (int n) (int ?b) = int (n mod ?b)" using b by (simp add: of_nat_mod)
  have "int n - int (n mod ?b) = int (n div ?b) * int ?b"
    by (metis add_diff_cancel_right' div_mult_mod_eq of_nat_add of_nat_mult)
  then have q: "c_div (int n - int (n mod ?b)) (int ?b) = int (n div ?b)"
    using b by (simp add: c_div_nonneg)
  have "int (n div ?b) \<noteq> 0 \<longleftrightarrow> ?b \<le> n" using b by (auto simp: div_eq_0_iff not_less)
  with b r q show ?thesis
    by (subst my_put_nbr_base.simps) (simp add: Let_def)
qed

lemma uint_base_step:
  assumes "good_base base" and "length base < 4294967296" and "0 < n" and "n < 4294967296"
  shows "my_put_uint_base (of_nat n) base s = Option.bind
    (if length base \<le> n then my_put_uint_base (of_nat (n div length base)) base s else Some s)
    (\<lambda>s. Some (kprintf_putchar (base ! (n mod length base)) s))"
    and "my_put_ulong_base (of_nat n) base s = Option.bind
    (if length base \<le> n then my_put_ulong_base (of_nat (n div length base)) base s else Some s)
    (\<lambda>s. Some (kprintf_putchar (base ! (n mod length base)) s))"
proof -
  let ?b = "length base"
  have b: "my_strlen base = int ?b" "0 < ?b" using assms(1) by (auto simp: good_base_def my_strlen_eq)
  have z: "my_put_uint_base 0 base s = Some s" "my_put_ulong_base 0 base s = Some s"
    by (simp_all add: my_put_uint_base.simps my_put_ulong_base.simps)
  have n: "(of_nat n :: u32) \<noteq> 0" using assms(3,4) by (simp add: of_nat_eq_0_32)
  have m: "n mod ?b < 4294967296" using assms(4) by (meson le_less_trans mod_less_eq_dividend)
  from b have "base \<noteq> []" by auto
  note eqs = this b n m of_nat_div_32 [OF assms(4,2)] of_nat_mod_32 [OF assms(4,2)] unat_of_nat_32
  show "my_put_uint_base (of_nat n) base s = Option.bind
    (if ?b \<le> n then my_put_uint_base (of_nat (n div ?b)) base s else Some s)
    (\<lambda>s. Some (kprintf_putchar (base ! (n mod ?b)) s))"
    by (subst my_put_uint_base.simps) (use z in \<open>simp add: Let_def eqs\<close>)
  show "my_put_ulong_base (of_nat n) base s = Option.bind
    (if ?b \<le> n then my_put_ulong_base (of_nat (n div ?b)) base s else Some s)
    (\<lambda>s. Some (kprintf_putchar (base ! (n mod ?b)) s))"
    by (subst my_put_ulong_base.simps) (use z in \<open>simp add: Let_def eqs\<close>)
qed

lemma my_put_nbr_base_printer:
  assumes "good_base base"
  shows "digit_printer kprintf_putchar kp_emit (\<lambda>n. my_put_nbr_base (int n) base) ((!) base)
    (length base) 2147483648"
  using assms by unfold_locales (auto simp: good_base_def nbr_base_step)

lemma my_put_uint_base_printer:
  assumes "good_base base" and "length base < 4294967296"
  shows "digit_printer kprintf_putchar kp_emit (\<lambda>n. my_put_uint_base (of_nat n) base) ((!) base)
    (length base) 4294967295"
  using assms by unfold_locales (auto simp: good_base_def uint_base_step)

lemma my_put_ulong_base_printer:
  assumes "good_base base" and "length base < 4294967296"
  shows "digit_printer kprintf_putchar kp_emit (\<lambda>n. my_put_ulong_base (of_nat n) base) ((!) base)
    (length base) 4294967295"
  using assms by unfold_locales (auto simp: good_base_def uint_base_step)

subsection \<open>Rendering\<close>

text \<open>
  What each conversion prints, as a function of the argument alone: the specification the
  C routines are compared with. \<^const>\<open>None\<close> where the C code has no defined result.
\<close>

definition in_base :: "string \<Rightarrow> nat \<Rightarrow> string" where
  "in_base base n = map ((!) base) (digits (length base) n)"

definition render_nbr :: "string \<Rightarrow> int \<Rightarrow> string option" where
  "render_nbr base i =
     (if i = INT_MIN then None
      else Some ((if i < 0 then ''-'' else []) @ in_base base (nat \<bar>i\<bar>)))"

definition render_uint :: "string \<Rightarrow> u32 \<Rightarrow> string" where
  "render_uint base n = (if n = 0 then [] else in_base base (unat n))"

definition render_pointer :: "u32 \<Rightarrow> string" where
  "render_pointer n = (if n = 0 then ''(nil)'' else ''0x'' @ in_base hex_base (unat n))"

lemma my_put_nbr_base_eq:
  fixes s :: "'a console_scheme"
  assumes base: "good_base base" and range: "INT_MIN \<le> num" "num \<le> INT_MAX"
  shows "my_put_nbr_base num base s = map_option (\<lambda>out. kp_emit out s) (render_nbr base num)"
proof -
  have zero: "my_put_nbr_base 0 base s' = Some (kp_emit (in_base base 0) s')" for s' :: "'a console_scheme"
    using base by (subst my_put_nbr_base.simps)
      (auto simp: good_base_def my_strlen_eq in_base_def digits.simps kp_out.put_emit Let_def)
  have pos: "my_put_nbr_base n base s' = Some (kp_emit (in_base base (nat n)) s')"
    if "0 \<le> n" "n \<le> 2147483648" for n and s' :: "'a console_scheme"
    using zero digit_printer.prints_digits [OF my_put_nbr_base_printer [OF base], of "nat n" s'] that
    by (cases "n = 0") (auto simp: in_base_def)
  show ?thesis
  proof (cases "num < 0")
    case True
    then show ?thesis
      using pos [of "- num"] range
      by (subst my_put_nbr_base.simps) (auto simp: render_nbr_def kp_out.emit_put Let_def INT_MIN_def)
  next
    case False
    with pos [of num s] range show ?thesis by (auto simp: render_nbr_def INT_MIN_def INT_MAX_def)
  qed
qed

lemma my_put_uint_base_eq:
  assumes "good_base base" and "length base < 4294967296"
  shows "my_put_uint_base n base s = Some (kp_emit (render_uint base n) s)"
    and "my_put_ulong_base n base s = Some (kp_emit (render_uint base n) s)"
proof -
  have n: "unat n \<le> 4294967295" using unat_lt_32 [of n] by linarith
  show "my_put_uint_base n base s = Some (kp_emit (render_uint base n) s)"
    using digit_printer.prints_digits [OF my_put_uint_base_printer [OF assms] _ n, of s]
    by (cases "n = 0") (auto simp: my_put_uint_base.simps render_uint_def in_base_def kp_out.emit_Nil unat_gt_0)
  show "my_put_ulong_base n base s = Some (kp_emit (render_uint base n) s)"
    using digit_printer.prints_digits [OF my_put_ulong_base_printer [OF assms] _ n, of s]
    by (cases "n = 0") (auto simp: my_put_ulong_base.simps render_uint_def in_base_def kp_out.emit_Nil unat_gt_0)
qed

definition render_dec :: "u32 \<Rightarrow> string" where
  "render_dec n = in_base dec_base (unat n)"

definition render_unit :: "u32 \<Rightarrow> string \<Rightarrow> u32 \<Rightarrow> string" where
  "render_unit v unit_name unit_size =
     render_dec (v div unit_size) @
     (let decimal = (v mod unit_size) * 1000 div unit_size
      in if unit_size \<noteq> 1 \<and> decimal > 0 then ''.'' @ render_dec decimal else []) @
     until_nul unit_name"

definition render_size :: "u32 \<Rightarrow> string" where
  "render_size n =
     (if n < 0x400 then render_unit n ''B'' 1
      else if n < 0x100000 then render_unit n ''Kb'' 0x400
      else if n < 0x40000000 then render_unit n ''Mb'' 0x100000
      else render_unit n ''Gb'' 0x40000000)"

definition render_escaped :: "char \<Rightarrow> string option" where
  "render_escaped c =
     (if schar c < 32 \<or> schar c \<ge> 127
      then map_option (\<lambda>ds. [CHR 0x5C] @
        (if schar c < 8 then ''00'' else if schar c < 32 then ''0'' else []) @ ds)
        (render_nbr oct_base (schar c))
      else Some [c])"

lemma bases_small [simp]:
  "length dec_base < 4294967296" "length hex_base < 4294967296" "length HEX_base < 4294967296"
  "length oct_base < 4294967296" "length bin_base < 4294967296"
  by (simp_all add: dec_base_def hex_base_def HEX_base_def oct_base_def bin_base_def)

lemma display_uint_eq: "display_uint n s = Some (kp_emit (render_dec n) s)"
proof (cases "n = 0")
  case True
  then show ?thesis
    by (simp add: display_uint_def render_dec_def in_base_def kp_out.put_emit dec_base_def)
next
  case False
  then show ?thesis
    by (simp add: display_uint_def render_dec_def my_put_uint_base_eq render_uint_def)
qed

lemma display_pointer_eq: "display_pointer n s = Some (kp_emit (render_pointer n) s)"
  by (auto simp: display_pointer_def my_put_uint_base_eq render_pointer_def render_uint_def
      my_putstr_eq kp_out.emit_emit)

lemma format_bytes_size_value_eq:
  "format_bytes_size_value v u k s = Some (kp_emit (render_unit v u k) s)"
  by (auto simp: format_bytes_size_value_def display_uint_eq render_unit_def my_putstr_eq
      kp_out.emit_emit kp_out.put_emit Let_def)

lemma format_bytes_size_eq: "format_bytes_size n s = Some (kp_emit (render_size n) s)"
  by (simp add: format_bytes_size_def render_size_def format_bytes_size_value_eq Let_def)

lemma schar_range: "- 128 \<le> schar c" "schar c \<le> 127"
  using sint_range_size [of "of_char c :: u8"] by (auto simp: schar_def word_size)

lemma my_full_putstr_char_eq:
  "(if schar c < 32 \<or> schar c \<ge> 127
    then
      let s1 = kprintf_putchar (CHR 0x5C) s;
          s2 = (if schar c < 32 \<and> schar c \<ge> 8 then my_putstr (Some ''0'') s1
                else if schar c < 8 then my_putstr (Some ''00'') s1
                else s1)
      in my_put_nbr_base (schar c) ''01234567'' s2
    else Some (kprintf_putchar c s)) =
   map_option (\<lambda>out. kp_emit out s) (render_escaped c)"
  using schar_range [of c]
  by (auto simp: my_put_nbr_base_eq INT_MIN_def INT_MAX_def my_putstr_eq kp_out.put_emit kp_out.emit_emit
      render_escaped_def render_nbr_def oct_base_def Let_def)

definition render_full :: "string \<Rightarrow> string option" where
  "render_full cs = map_option concat (those (map render_escaped (until_nul cs)))"

lemma my_full_putstr_loop_eq:
  "my_full_putstr_loop cs s = map_option (\<lambda>out. kp_emit out s) (render_full cs)"
proof (induction cs arbitrary: s)
  case Nil
  then show ?case by (simp add: render_full_def kp_out.emit_Nil)
next
  case (Cons c cs)
  show ?case
  proof (cases "c = NUL")
    case True
    then show ?thesis by (simp add: render_full_def kp_out.emit_Nil)
  next
    case False
    then have "my_full_putstr_loop (c # cs) s =
        Option.bind (map_option (\<lambda>out. kp_emit out s) (render_escaped c)) (my_full_putstr_loop cs)"
      by (simp only: my_full_putstr_loop.simps my_full_putstr_char_eq if_False)
    with False Cons.IH show ?thesis
      by (cases "render_escaped c") (auto simp: render_full_def kp_out.emit_emit option.map_comp comp_def)
  qed
qed

text \<open>The text of one conversion, with the arguments it leaves.\<close>

definition out_int :: "(u32 \<Rightarrow> string option) \<Rightarrow> va list \<Rightarrow> (va list \<times> string) option" where
  "out_int f ap = do { (n, ap) \<leftarrow> va_int ap; out \<leftarrow> f n; Some (ap, out) }"

definition out_str :: "(cstring \<Rightarrow> string option) \<Rightarrow> va list \<Rightarrow> (va list \<times> string) option" where
  "out_str f ap = do { (p, ap) \<leftarrow> va_str ap; out \<leftarrow> f p; Some (ap, out) }"

definition render_var :: "char \<Rightarrow> va list \<Rightarrow> (va list \<times> string) option" where
  "render_var f ap =
     (if f = CHR ''%'' then Some (ap, ''%'')
      else if f = CHR ''s'' then out_str (\<lambda>p. Some (case p of None \<Rightarrow> [] | Some cs \<Rightarrow> until_nul cs)) ap
      else if f = CHR ''d'' \<or> f = CHR ''i'' then out_int (\<lambda>n. render_nbr dec_base (sint n)) ap
      else if f = CHR ''c'' then out_int (\<lambda>n. Some [char_of (unat n)]) ap
      else if f = CHR ''o'' then out_int (\<lambda>n. Some (render_uint oct_base n)) ap
      else if f = CHR ''u'' then out_int (\<lambda>n. Some (render_dec n)) ap
      else if f = CHR ''x'' then out_int (\<lambda>n. Some (render_uint hex_base n)) ap
      else if f = CHR ''X'' then out_int (\<lambda>n. Some (render_uint HEX_base n)) ap
      else if f = CHR ''p'' then out_int (\<lambda>n. Some (render_pointer n)) ap
      else if f = CHR ''b'' then out_int (\<lambda>n. render_nbr bin_base (sint n)) ap
      else if f = CHR ''B'' then out_int (\<lambda>n. Some (render_size n)) ap
      else if f = CHR ''S'' then out_str (\<lambda>p. Option.bind p render_full) ap
      else Some (ap, [CHR ''%'', f]))"

fun render :: "string \<Rightarrow> va list \<Rightarrow> string option" where
  "render [] ap = Some []"
| "render [c] ap = (if c = NUL then Some [] else if c = CHR ''%'' then None else Some [c])"
| "render (c # f # rest) ap =
     (if c = NUL then Some []
      else if c = CHR ''%''
      then Option.bind (render_var f ap) (\<lambda>(ap, out). map_option ((@) out) (render rest ap))
      else map_option (Cons c) (render (f # rest) ap))"

lemma with_int_eq:
  assumes "\<And>n. f n s = map_option (\<lambda>out. kp_emit out s) (g n)"
  shows "with_int f ap s = map_option (\<lambda>(ap, out). (ap, kp_emit out s)) (out_int g ap)"
  by (cases ap rule: va_int.cases) (auto simp: with_int_def out_int_def assms map_option_case split: option.splits)

lemma with_str_eq:
  assumes "\<And>p. f p s = map_option (\<lambda>out. kp_emit out s) (g p)"
  shows "with_str f ap s = map_option (\<lambda>(ap, out). (ap, kp_emit out s)) (out_str g ap)"
  by (cases ap rule: va_str.cases) (auto simp: with_str_def out_str_def assms map_option_case split: option.splits)

lemma sint_int_range: "INT_MIN \<le> sint (n :: u32)" "sint (n :: u32) \<le> INT_MAX"
  using sint_range_size [of n] by (auto simp: word_size INT_MIN_def INT_MAX_def)

lemma display_var_eq:
  "display_var f ap s = map_option (\<lambda>(ap, out). (ap, kp_emit out s)) (render_var f ap)"
proof -
  have nbr: "with_int (\<lambda>n. my_put_nbr_base (sint n) base) ap s =
      map_option (\<lambda>(ap, out). (ap, kp_emit out s)) (out_int (\<lambda>n. render_nbr base (sint n)) ap)"
    if "good_base base" for base
    by (rule with_int_eq) (simp add: my_put_nbr_base_eq that sint_int_range)
  have uint: "with_int (\<lambda>n. my_put_uint_base n base) ap s =
      map_option (\<lambda>(ap, out). (ap, kp_emit out s)) (out_int (\<lambda>n. Some (render_uint base n)) ap)"
    if "good_base base" "length base < 4294967296" for base
    by (rule with_int_eq) (simp add: my_put_uint_base_eq that)
  have sized: "with_int f ap s = map_option (\<lambda>(ap, out). (ap, kp_emit out s)) (out_int (\<lambda>n. Some (g n)) ap)"
    if "\<And>n. f n s = Some (kp_emit (g n) s)" for f g
    by (rule with_int_eq) (simp add: that)
  have str: "with_str (\<lambda>p s. Some (my_putstr p s)) ap s = map_option (\<lambda>(ap, out). (ap, kp_emit out s))
      (out_str (\<lambda>p. Some (case p of None \<Rightarrow> [] | Some cs \<Rightarrow> until_nul cs)) ap)"
    by (rule with_str_eq) (simp add: my_putstr_eq)
  have full: "with_str my_full_putstr ap s = map_option (\<lambda>(ap, out). (ap, kp_emit out s))
      (out_str (\<lambda>p. Option.bind p render_full) ap)"
    by (rule with_str_eq) (simp add: my_full_putstr_def my_full_putstr_loop_eq split: option.splits)
  have chr: "with_int (\<lambda>n s. Some (kp_emit [char_of (unat n)] s)) ap s =
      map_option (\<lambda>(ap, out). (ap, kp_emit out s)) (out_int (\<lambda>n. Some [char_of (unat n)]) ap)"
    by (rule with_int_eq) simp
  show ?thesis
    unfolding display_var_def render_var_def if_distrib [of "map_option (\<lambda>(ap, out). (ap, kp_emit out s))"]
    by (simp only: nbr [OF good_bases(1)] nbr [OF good_bases(5)] uint [OF good_bases(2) bases_small(2)]
        uint [OF good_bases(3) bases_small(3)] uint [OF good_bases(4) bases_small(4)] str full chr
        sized [of display_uint render_dec, OF display_uint_eq]
        sized [of display_pointer render_pointer, OF display_pointer_eq]
        sized [of format_bytes_size render_size, OF format_bytes_size_eq]
        display_invalid_flag_def kp_out.put_emit kp_out.emit_emit append_Cons append_Nil
        option.map prod.case)
qed

lemma kprintf_loop_eq:
  "kprintf_loop fmt ap s = map_option (\<lambda>out. kp_emit out s) (render fmt ap)"
proof (induction fmt ap s rule: kprintf_loop.induct)
  case (3 c f rest ap s)
  show ?case
  proof (cases "c = CHR ''%''")
    case True
    show ?thesis
    proof (cases "render_var f ap")
      case (Some r)
      then obtain ap' out where r: "render_var f ap = Some (ap', out)" by (cases r) auto
      with True "3.IH"(1) show ?thesis
        by (auto simp: display_var_eq option.map_comp comp_def kp_out.emit_emit)
    qed (use True in \<open>simp add: display_var_eq\<close>)
  next
    case False
    with "3.IH"(2) show ?thesis
      by (auto simp: option.map_comp comp_def kp_out.emit_put kp_out.emit_Nil)
  qed
qed (auto simp: kp_out.emit_Nil kp_out.put_emit)

lemma kprintf_eq:
  "kprintf fmt ap s =
     map_option (\<lambda>out. (disp_bytes s + of_nat (length out),
       s\<lparr>trace := trace s @ map (\<lambda>c. Out (uart_addr s) (of_char c)) out,
         disp_bytes := disp_bytes s + of_nat (length out) + 1\<rparr>)) (render fmt ap)"
  by (cases "render fmt ap")
    (simp_all add: kprintf_def kprintf_loop_eq nbr_disp_bytes_def kp_emit_def Let_def)

subsection \<open>Printing touches nothing but the output\<close>

lemma kprintf_fields:
  assumes "render fmt ap \<noteq> None"
  shows "\<exists>r t d. kprintf fmt ap s = Some (r, s\<lparr>trace := t, disp_bytes := d\<rparr>)"
  using assms by (auto simp: kprintf_eq)

lemma render_nbr_defined: "i \<noteq> INT_MIN \<Longrightarrow> render_nbr base i \<noteq> None"
  by (simp add: render_nbr_def)

lemma sint_odd: "bit (v :: u32) 0 \<Longrightarrow> sint v \<noteq> INT_MIN"
proof
  assume "bit v 0" "sint v = INT_MIN"
  moreover have "word_of_int (sint v) = v" by simp
  ultimately have "v = word_of_int INT_MIN" by simp
  with \<open>bit v 0\<close> show False by (simp add: INT_MIN_def bit_0)
qed

lemma sint_small: "n < 2147483648 \<Longrightarrow> sint (of_nat n :: u32) \<noteq> INT_MIN"
proof -
  assume "n < 2147483648"
  then have "sint (of_nat n :: u32) = int n"
    by (simp add: signed_of_nat signed_take_bit_int_eq_self)
  then show ?thesis by (simp add: INT_MIN_def)
qed

lemma sint_ucast_small:
  "sint (ucast (b :: u8) :: u32) \<noteq> INT_MIN" "sint (ucast (h :: u16) :: u32) \<noteq> INT_MIN"
proof -
  have "unat b < 2 ^ LENGTH(8)" "unat h < 2 ^ LENGTH(16)" by (rule unsigned_less)+
  then have "unat b < 2147483648" "unat h < 2147483648" by simp_all
  moreover have "(ucast b :: u32) = of_nat (unat b)" "(ucast h :: u32) = of_nat (unat h)" by simp_all
  ultimately show "sint (ucast (b :: u8) :: u32) \<noteq> INT_MIN" "sint (ucast (h :: u16) :: u32) \<noteq> INT_MIN"
    using sint_small by metis+
qed

lemmas render_simps = render_var_def out_int_def out_str_def render_nbr_def

definition printed :: "'a console_scheme \<Rightarrow> 'a console_scheme \<Rightarrow> bool" where
  "printed s s' \<longleftrightarrow> (\<exists>t d. s' = s\<lparr>trace := t, disp_bytes := d\<rparr>)"

lemma printed_refl [simp]: "printed s s"
  unfolding printed_def by (intro exI [of _ "trace s"] exI [of _ "disp_bytes s"]) simp

lemma printed_trans [trans]: "printed s t \<Longrightarrow> printed t u \<Longrightarrow> printed s u"
  unfolding printed_def by clarsimp blast

lemma kprintf_printed:
  assumes "render fmt ap \<noteq> None"
  obtains r s' where "kprintf fmt ap s = Some (r, s')" "printed s s'"
  using kprintf_fields [OF assms, of s] by (auto simp: printed_def)

text \<open>C15. \<open>kprintf\<close> sends exactly the rendered format to the UART, character by character, and
  changes nothing else but the byte counter. It has a defined result exactly when the format
  renders. Its return value is the running total of the counter, which is never reset and
  counts each call as well: it is not the number of bytes of this call.\<close>

theorem kprintf_renders:
  "kprintf fmt ap s =
     map_option (\<lambda>out. (disp_bytes s + of_nat (length out),
       s\<lparr>trace := trace s @ map (\<lambda>c. Out (uart_addr s) (of_char c)) out,
         disp_bytes := disp_bytes s + of_nat (length out) + 1\<rparr>)) (render fmt ap)"
  by (rule kprintf_eq)

end
