(* ===== verification/Interrupts.thy ===== *)
theory Interrupts
  imports Kprintf
begin

text \<open>
  The interrupt descriptor table and the table of handlers (\<^verbatim>\<open>src/interrupts.c\<close>,
  \<^verbatim>\<open>inc/interrupts.h\<close>): \<open>register_irq_handler\<close>, \<open>interrupts_set_isr\<close> and
  \<open>interrupts_init\<close>. The dispatcher \<open>irq_handler\<close> runs the drivers' handlers and is
  in the theory of the drivers. A function pointer stored in the table is one of the
  handlers the kernel registers. The addresses of the assembly entry points \<open>isrN\<close> and
  of \<open>g_idt\<close> are chosen by the linker and are parameters.
\<close>

subsection \<open>Tables\<close>

record idt_entry =
  offset_low :: u16
  sgm_selector :: u16
  zero_byte :: u8
  gate_flags :: u8
  offset_high :: u16

datatype interrupt_handler = Page_fault_handler | Uart_handler | Pit_handler | Keyboard_handler

definition IDT_SIZE :: nat where "IDT_SIZE = 256"

definition SEG_PRESENT :: u32 where "SEG_PRESENT = push_bit 7 1"
definition IDT_RING_LVL_0 :: u32 where "IDT_RING_LVL_0 = 0"
definition SIZE_OF_GATE_32 :: u32 where "SIZE_OF_GATE_32 = 0x0E"

definition null_idt_entry :: idt_entry where
  "null_idt_entry = \<lparr>offset_low = 0, sgm_selector = 0, zero_byte = 0, gate_flags = 0, offset_high = 0\<rparr>"

record irqs = console +
  g_idt :: "idt_entry list"
  g_handlers :: "interrupt_handler option list"
  idt_register :: "(u16 \<times> u32) option"
  int_enabled :: bool

subsection \<open>Operations\<close>

text \<open>The tables have fixed sizes; an index outside them has no defined result.\<close>

definition register_irq_handler ::
  "int \<Rightarrow> interrupt_handler \<Rightarrow> 'a irqs_scheme \<Rightarrow> 'a irqs_scheme option" where
  "register_irq_handler int_number handler s =
     (if 0 \<le> int_number \<and> int_number < int (length (g_handlers s))
      then Some (s\<lparr>g_handlers := (g_handlers s)[nat int_number := Some handler]\<rparr>)
      else None)"

definition interrupts_set_isr :: "int \<Rightarrow> u32 \<Rightarrow> u32 \<Rightarrow> 'a irqs_scheme \<Rightarrow> 'a irqs_scheme option" where
  "interrupts_set_isr n handler flags s =
     (if n \<ge> int IDT_SIZE then Some s
      else if n < 0 then None
      else Some (s\<lparr>g_idt := (g_idt s)[nat n :=
        \<lparr>offset_low = ucast (handler AND 0x0000FFFF),
         sgm_selector = 0x08,
         zero_byte = 0x00,
         gate_flags = ucast flags,
         offset_high = ucast (drop_bit 16 (handler AND 0xFFFF0000))\<rparr>]\<rparr>))"

fun set_isrs :: "int list \<Rightarrow> (int \<Rightarrow> u32) \<Rightarrow> u32 \<Rightarrow> 'a irqs_scheme \<Rightarrow> 'a irqs_scheme option" where
  "set_isrs [] isr flags s = Some s"
| "set_isrs (n # ns) isr flags s =
     Option.bind (interrupts_set_isr n (isr n) flags s) (set_isrs ns isr flags)"

definition load_idt_register :: "u32 \<Rightarrow> 'a irqs_scheme \<Rightarrow> 'a irqs_scheme" where
  "load_idt_register idt_addr s = s\<lparr>idt_register := Some (of_nat (8 * IDT_SIZE - 1), idt_addr)\<rparr>"

definition enable_interrupts :: "'a irqs_scheme \<Rightarrow> 'a irqs_scheme" where
  "enable_interrupts s = s\<lparr>int_enabled := True\<rparr>"

text \<open>The vectors in the order of the calls in \<open>interrupts_init\<close>.\<close>

definition isr_vectors :: "int list" where
  "isr_vectors = [0, 1, 2, 3, 4, 5, 6, 7, 8, 9, 10, 11, 12, 13, 14,
     16, 17, 18, 19, 20, 30, 31, 32, 33, 36]"

definition interrupts_init :: "u32 \<Rightarrow> (int \<Rightarrow> u32) \<Rightarrow> 'a irqs_scheme \<Rightarrow> 'a irqs_scheme option" where
  "interrupts_init idt_addr isr s =
     (let s = s\<lparr>g_idt := replicate IDT_SIZE null_idt_entry\<rparr>;
          flags = SEG_PRESENT OR IDT_RING_LVL_0 OR SIZE_OF_GATE_32
      in do {
        s \<leftarrow> set_isrs isr_vectors isr flags s;
        Some (enable_interrupts (load_idt_register idt_addr s))
      })"

subsection \<open>The descriptor table after initialisation\<close>

definition gate_offset :: "idt_entry \<Rightarrow> u32" where
  "gate_offset e = ucast (offset_low e) OR push_bit 16 (ucast (offset_high e))"

lemma gate_offset_isr:
  "gate_offset \<lparr>offset_low = ucast (h AND 0x0000FFFF), sgm_selector = x, zero_byte = y, gate_flags = z,
     offset_high = ucast (drop_bit 16 (h AND 0xFFFF0000))\<rparr> = h"
proof (rule bit_word_eqI)
  have lo: "(0xFFFF :: u32) = mask 16" and hi: "(0xFFFF0000 :: u32) = push_bit 16 (mask 16)"
    by (simp_all add: mask_eq_exp_minus_1)
  fix i assume "i < LENGTH(32)"
  then show "bit (gate_offset \<lparr>offset_low = ucast (h AND 0x0000FFFF), sgm_selector = x, zero_byte = y,
      gate_flags = z, offset_high = ucast (drop_bit 16 (h AND 0xFFFF0000))\<rparr>) i = bit h i"
    by (cases "i < 16") (auto simp: gate_offset_def lo hi bit_simps)
qed

definition isr_gate :: "u32 \<Rightarrow> u32 \<Rightarrow> idt_entry" where
  "isr_gate h flags = \<lparr>offset_low = ucast (h AND 0x0000FFFF), sgm_selector = 0x08, zero_byte = 0x00,
     gate_flags = ucast flags, offset_high = ucast (drop_bit 16 (h AND 0xFFFF0000))\<rparr>"

lemma set_isrs_eq:
  "(\<forall>n \<in> set ns. 0 \<le> n \<and> n < 256) \<Longrightarrow> set_isrs ns isr flags s =
     Some (s\<lparr>g_idt := fold (\<lambda>n t. t[nat n := isr_gate (isr n) flags]) ns (g_idt s)\<rparr>)"
  by (induction ns arbitrary: s) (auto simp: interrupts_set_isr_def IDT_SIZE_def isr_gate_def)

lemma fold_update_nth:
  "(\<forall>n \<in> set ns. 0 \<le> n) \<Longrightarrow> i < length t \<Longrightarrow>
   fold (\<lambda>n t. t[nat n := f n]) ns t ! i = (if int i \<in> set ns then f (int i) else t ! i)"
  by (induction ns arbitrary: t) (auto simp: nth_list_update)

lemma isr_vectors_range: "\<forall>n \<in> set isr_vectors. 0 \<le> n \<and> n < 256"
  by (simp add: isr_vectors_def)



text \<open>
  A registered handler is the one found at its vector, and registering leaves the other
  vectors alone.
\<close>

lemma register_irq_handler_lookup:
  assumes "register_irq_handler n h s = Some s'"
  shows "g_handlers s' ! nat n = Some h" and "i \<noteq> nat n \<Longrightarrow> g_handlers s' ! i = g_handlers s ! i"
    and "length (g_handlers s') = length (g_handlers s)"
  using assms by (auto simp: register_irq_handler_def split: if_splits)

end
