(* ===== verification/Paging.thy ===== *)
theory Paging
  imports Interrupts
begin

text \<open>
  Data and constants of the memory manager (\<^verbatim>\<open>inc/pages.h\<close>, \<^verbatim>\<open>inc/frame.h\<close>),
  its state, and the part of \<^verbatim>\<open>src/pages.c\<close> that sets up and reads the page directory:
  \<open>init_page_directory\<close>, \<open>finalize_pagination\<close>, \<open>init_page_tables\<close>,
  \<open>init_page_directory_for_frames\<close> and \<open>get_physaddr\<close>.

  Memory is indexed by kernel virtual addresses. The first 4 MB of physical memory are
  also reachable at their physical addresses while the code below runs (paging is off, or
  the identity entry of the page directory is in force), and \<open>id_window\<close> gives the
  kernel virtual address of the same byte. The address of the array \<open>page_dir\<close> is chosen
  by the linker and is the parameter \<open>page_dir\<close>.
\<close>

subsection \<open>Constants\<close>

definition SYSTEM_ADDR_BASE :: u32 where "SYSTEM_ADDR_BASE = 0xC0000000"
definition RAM_BASE_ADDR :: u32 where "RAM_BASE_ADDR = 0x100000"
definition FRAME_SIZE :: u32 where "FRAME_SIZE = 0x1000"
definition FOUR_MB :: u32 where "FOUR_MB = 0x400000"
definition KERNEL_SIZE_IN_RAM :: u32 where "KERNEL_SIZE_IN_RAM = 2 * FOUR_MB - RAM_BASE_ADDR"

definition PF_PRES :: u32 where "PF_PRES = 0x1"
definition PF_RW :: u32 where "PF_RW = 0x2"
definition PF_USER :: u32 where "PF_USER = 0x4"
definition PF_4M :: u32 where "PF_4M = 0x80"

definition KERNEL_PAGE_DIRECTORY_INDEX :: u32 where
  "KERNEL_PAGE_DIRECTORY_INDEX = drop_bit 22 SYSTEM_ADDR_BASE"
definition PAGE_TABLES_DIRECTORY_INDEX :: u32 where
  "PAGE_TABLES_DIRECTORY_INDEX = KERNEL_PAGE_DIRECTORY_INDEX + 1"
definition FRAMES_DIRECTORY_INDEX :: u32 where
  "FRAMES_DIRECTORY_INDEX = PAGE_TABLES_DIRECTORY_INDEX + 1"
definition PAGE_TABLES_START_VADDR :: u32 where
  "PAGE_TABLES_START_VADDR = push_bit 22 PAGE_TABLES_DIRECTORY_INDEX"
definition FRAMES_START_VADDR :: u32 where
  "FRAMES_START_VADDR = push_bit 22 FRAMES_DIRECTORY_INDEX"
definition FRAMES_START_PADDR :: u32 where "FRAMES_START_PADDR = 0x00800000"

lemma layout_values:
  "KERNEL_PAGE_DIRECTORY_INDEX = 768" "PAGE_TABLES_DIRECTORY_INDEX = 769"
  "FRAMES_DIRECTORY_INDEX = 770" "PAGE_TABLES_START_VADDR = 0xC0400000"
  "FRAMES_START_VADDR = 0xC0800000" "KERNEL_SIZE_IN_RAM = 0x700000"
  by (simp_all add: KERNEL_PAGE_DIRECTORY_INDEX_def PAGE_TABLES_DIRECTORY_INDEX_def
      FRAMES_DIRECTORY_INDEX_def PAGE_TABLES_START_VADDR_def FRAMES_START_VADDR_def
      SYSTEM_ADDR_BASE_def KERNEL_SIZE_IN_RAM_def FOUR_MB_def RAM_BASE_ADDR_def)

lemmas page_consts = SYSTEM_ADDR_BASE_def RAM_BASE_ADDR_def FRAME_SIZE_def FOUR_MB_def
  FRAMES_START_PADDR_def layout_values

lemmas pf_flags = PF_PRES_def PF_RW_def PF_USER_def PF_4M_def

definition PDE_4MB_ADDR_HIGH :: "u32 \<Rightarrow> u32" where "PDE_4MB_ADDR_HIGH a = drop_bit 22 a"
definition PDE_ADDR_HIGH :: "u32 \<Rightarrow> u32" where "PDE_ADDR_HIGH a = drop_bit 12 a"
definition PTE_ADDR_HIGH :: "u32 \<Rightarrow> u32" where "PTE_ADDR_HIGH a = drop_bit 12 a"
definition PDE_PTADDR_TO_VADDR :: "u32 \<Rightarrow> u32" where
  "PDE_PTADDR_TO_VADDR a = SYSTEM_ADDR_BASE + push_bit 12 a"

subsection \<open>Bit fields of the entries\<close>

text \<open>
  A bit field of width \<open>w\<close> at bit \<open>i\<close> of a 32-bit value. The unions
  \<open>t_page_directory_entry\<close> and \<open>t_page_table_entry\<close> overlay these fields on
  \<open>value\<close>.
\<close>

definition get_bits :: "nat \<Rightarrow> nat \<Rightarrow> u32 \<Rightarrow> u32" where
  "get_bits i w v = take_bit w (drop_bit i v)"

definition set_bits :: "nat \<Rightarrow> nat \<Rightarrow> u32 \<Rightarrow> u32 \<Rightarrow> u32" where
  "set_bits i w f v = (v AND NOT (push_bit i (mask w))) OR push_bit i (take_bit w f)"

definition pde4_flags_set :: "u32 \<Rightarrow> u32 \<Rightarrow> u32" where "pde4_flags_set = set_bits 0 9"
definition pde4_ignored :: "u32 \<Rightarrow> u32" where "pde4_ignored = get_bits 9 3"
definition pde4_ignored2 :: "u32 \<Rightarrow> u32" where "pde4_ignored2 = get_bits 13 9"
definition pde4_addr :: "u32 \<Rightarrow> u32" where "pde4_addr = get_bits 22 10"
definition pde4_addr_set :: "u32 \<Rightarrow> u32 \<Rightarrow> u32" where "pde4_addr_set = set_bits 22 10"

definition pde_flags_set :: "u32 \<Rightarrow> u32 \<Rightarrow> u32" where "pde_flags_set = set_bits 0 8"
definition pde_ptaddr :: "u32 \<Rightarrow> u32" where "pde_ptaddr = get_bits 12 20"
definition pde_ptaddr_set :: "u32 \<Rightarrow> u32 \<Rightarrow> u32" where "pde_ptaddr_set = set_bits 12 20"

definition pte_flags_set :: "u32 \<Rightarrow> u32 \<Rightarrow> u32" where "pte_flags_set = set_bits 0 9"
definition pte_ignored :: "u32 \<Rightarrow> u32" where "pte_ignored = get_bits 9 3"
definition pte_addr :: "u32 \<Rightarrow> u32" where "pte_addr = get_bits 12 20"
definition pte_addr_set :: "u32 \<Rightarrow> u32 \<Rightarrow> u32" where "pte_addr_set = set_bits 12 20"

lemmas entry_fields = pde4_flags_set_def pde4_ignored_def pde4_ignored2_def pde4_addr_def
  pde4_addr_set_def pde_flags_set_def pde_ptaddr_def pde_ptaddr_set_def pte_flags_set_def
  pte_ignored_def pte_addr_def pte_addr_set_def

subsection \<open>State of the memory manager\<close>

record frame =
  f_ref_count :: u32
  f_addr :: u32
  f_vaddr :: u32

record frame_context =
  fc_map :: u32
  frames_meta_start_vaddr :: u32
  frames_meta_end_vaddr :: u32
  frames_count :: u32

record kmem = irqs +
  g_frame_page_directory :: frame
  g_kds_size :: u32
  g_frames_context :: frame_context
  invlpg_log :: "u32 list"
  cr0 :: u32

definition ld :: "u32 \<Rightarrow> 'a machine_scheme \<Rightarrow> u32" where
  "ld a s = load32 (mem s) a"

definition st :: "u32 \<Rightarrow> u32 \<Rightarrow> 'a machine_scheme \<Rightarrow> 'a machine_scheme" where
  "st a v s = s\<lparr>mem := store32 (mem s) a v\<rparr>"

text \<open>The \<open>invlpg\<close> instruction, recorded with the address it is given.\<close>

definition native_flush_tlb_single :: "u32 \<Rightarrow> 'a kmem_scheme \<Rightarrow> 'a kmem_scheme" where
  "native_flush_tlb_single a s = s\<lparr>invlpg_log := invlpg_log s @ [a]\<rparr>"

definition get_kds_size :: "'a kmem_scheme \<Rightarrow> u32" where
  "get_kds_size s = g_kds_size s"

definition get_kpd_frame :: "'a kmem_scheme \<Rightarrow> frame" where
  "get_kpd_frame s = g_frame_page_directory s"

definition get_frames_context :: "'a kmem_scheme \<Rightarrow> frame_context" where
  "get_frames_context s = g_frames_context s"

definition getpagesize :: u32 where
  "getpagesize = FRAME_SIZE"

definition id_window :: "u32 \<Rightarrow> u32" where
  "id_window p = p + SYSTEM_ADDR_BASE"

definition disable_cache :: "'a kmem_scheme \<Rightarrow> 'a kmem_scheme" where
  "disable_cache s = s\<lparr>cr0 := cr0 s OR push_bit 30 1\<rparr>"

subsection \<open>Setting up the page directory\<close>

text \<open>\<open>value = 0\<close>, then the 4 MB address field, then the flags, as the code assigns them.\<close>

definition kernel_pde :: "u32 \<Rightarrow> u32" where
  "kernel_pde paddr =
     pde4_flags_set (PF_PRES OR PF_RW OR PF_4M) (pde4_addr_set (PDE_4MB_ADDR_HIGH paddr) 0)"

definition init_page_directory :: "u32 \<Rightarrow> 'a kmem_scheme \<Rightarrow> 'a kmem_scheme" where
  "init_page_directory page_dir s =
     (let page_directory = page_dir - SYSTEM_ADDR_BASE;
          s = s\<lparr>mem := memset (mem s) (id_window page_directory) 0 (1024 * 4)\<rparr>;
          s = st (id_window page_directory) (kernel_pde 0x00000000) s;
          s = st (id_window (page_directory + 4 * KERNEL_PAGE_DIRECTORY_INDEX)) (kernel_pde 0x00000000) s
      in st (id_window (page_directory + 4 * PAGE_TABLES_DIRECTORY_INDEX)) (kernel_pde 0x00400000) s)"

definition finalize_pagination :: "u32 \<Rightarrow> 'a kmem_scheme \<Rightarrow> 'a kmem_scheme option" where
  "finalize_pagination page_dir s =
     (let page_directory = page_dir - SYSTEM_ADDR_BASE;
          s = st (id_window page_directory) 0 s;
          s = s\<lparr>g_frame_page_directory :=
                \<lparr>f_ref_count = 1, f_addr = page_directory, f_vaddr = page_dir\<rparr>\<rparr>;
          s = disable_cache s
      in register_irq_handler 14 Page_fault_handler s)"

text \<open>
  The page directory is reached here through \<open>g_frame_page_directory.addr\<close>, its physical
  address. The cursor is an \<open>uint16_t\<close> that runs from 0 to 1024.
\<close>

function init_page_tables_loop :: "nat \<Rightarrow> 'a kmem_scheme \<Rightarrow> 'a kmem_scheme" where
  "init_page_tables_loop pde_cursor s =
     (if pde_cursor < 1024
      then
        let pde = id_window (f_addr (g_frame_page_directory s) + 4 * of_nat pde_cursor);
            s = (if ld pde s AND PF_PRES = 0
                 then st pde (pde_ptaddr_set (PDE_ADDR_HIGH (0x00400000 + of_nat pde_cursor * 1024 * 4)) (ld pde s)) s
                 else s)
        in init_page_tables_loop (pde_cursor + 1) s
      else s)"
  by pat_completeness auto
termination
  by (relation "measure (\<lambda>(pde_cursor, s). 1024 - pde_cursor)") auto

declare init_page_tables_loop.simps [simp del]

definition init_page_tables :: "'a kmem_scheme \<Rightarrow> 'a kmem_scheme" where
  "init_page_tables s =
     (let s = init_page_tables_loop 0 s
      in s\<lparr>mem := memset (mem s) PAGE_TABLES_START_VADDR 0 0x400000\<rparr>)"

subsection \<open>Mapping the frame array\<close>

text \<open>
  The two nested loops of \<open>init_page_directory_for_frames\<close>. All counters stay below
  1025, so their \<open>uint16_t\<close> and \<open>int\<close> types do not matter; addresses are words.
\<close>

function map_frames_ptes :: "nat \<Rightarrow> nat \<Rightarrow> nat \<Rightarrow> nat \<Rightarrow> u32 \<Rightarrow> 'a kmem_scheme \<Rightarrow> 'a kmem_scheme" where
  "map_frames_ptes pde_count max_last_pde cursor pte_cursor pde s =
     (if pte_cursor < 1024 \<and> (int cursor < int pde_count - 1 \<or> pte_cursor < max_last_pde)
      then
        let pte = PDE_PTADDR_TO_VADDR (pde_ptaddr (ld pde s)) + 4 * of_nat pte_cursor;
            faddr = FRAMES_START_PADDR + of_nat cursor * FOUR_MB + of_nat pte_cursor * FRAME_SIZE;
            s = st pte (pte_flags_set (PF_PRES OR PF_RW) (pte_addr_set (PTE_ADDR_HIGH faddr) 0)) s;
            s = native_flush_tlb_single (pte + 4 * of_nat pte_cursor) s
        in map_frames_ptes pde_count max_last_pde cursor (pte_cursor + 1) pde s
      else s)"
  by pat_completeness auto
termination
  by (relation "measure (\<lambda>(_, _, _, pte_cursor, _, _). 1024 - pte_cursor)") auto

declare map_frames_ptes.simps [simp del]

function map_frames_pdes :: "u32 \<Rightarrow> nat \<Rightarrow> nat \<Rightarrow> nat \<Rightarrow> 'a kmem_scheme \<Rightarrow> 'a kmem_scheme" where
  "map_frames_pdes page_dir pde_count max_last_pde cursor s =
     (if cursor < pde_count
      then
        let pde = page_dir + 4 * (FRAMES_DIRECTORY_INDEX + of_nat cursor);
            s = st pde (pde_flags_set (PF_PRES OR PF_RW) (ld pde s)) s;
            s = map_frames_ptes pde_count max_last_pde cursor 0 pde s
        in map_frames_pdes page_dir pde_count max_last_pde (cursor + 1) s
      else s)"
  by pat_completeness auto
termination
  by (relation "measure (\<lambda>(_, pde_count, _, cursor, _). pde_count - cursor)") auto

declare map_frames_pdes.simps [simp del]

definition init_page_directory_for_frames :: "u32 \<Rightarrow> u32 \<Rightarrow> 'a kmem_scheme \<Rightarrow> 'a kmem_scheme" where
  "init_page_directory_for_frames page_dir frames_size s =
     (let pde_count = unat (frames_size div FOUR_MB) + (if frames_size mod FOUR_MB > 0 then 1 else 0);
          max_last_pde = unat ((frames_size mod FOUR_MB) div FRAME_SIZE) +
            (if frames_size mod FRAME_SIZE > 0 then 1 else 0)
      in map_frames_pdes page_dir pde_count max_last_pde 0 s)"

subsection \<open>Address translation in software\<close>

definition get_physaddr :: "u32 \<Rightarrow> u32 \<Rightarrow> 'a kmem_scheme \<Rightarrow> u32" where
  "get_physaddr page_dir vaddr s =
     (let pdindex = drop_bit 22 vaddr;
          pd = ld (page_dir + 4 * pdindex) s
      in if pd AND PF_PRES = 0 then NULL
         else if pd AND PF_4M \<noteq> 0
         then (if pde4_ignored pd \<noteq> 0 \<or> pde4_ignored2 pd \<noteq> 0 then NULL
               else
                 let offset_within_page = vaddr AND 0xFFF
                 in push_bit 22 (pde4_addr pd) + offset_within_page)
         else
           let pt = PDE_PTADDR_TO_VADDR (pde_ptaddr pd);
               ptindex = drop_bit 12 vaddr AND 0x03FF;
               offset_within_page = vaddr AND 0xFFF;
               pte = ld (pt + 4 * ptindex) s
           in if pte AND PF_PRES = 0 \<or> pte_ignored pte \<noteq> 0 then NULL
              else push_bit 12 (pte_addr pte) + offset_within_page)"

end
