(* ===== verification/Frame.thy ===== *)
theory Frame
  imports Paging
begin

text \<open>
  The physical frame allocator (\<^verbatim>\<open>src/frame.c\<close>). The array of \<open>struct frame\<close> lives
  in memory at \<open>FRAMES_START_VADDR\<close>, 12 bytes per frame: \<open>ref_count\<close>, \<open>addr\<close>,
  \<open>vaddr\<close>. A \<open>struct frame *\<close> is the address of its entry. The memory map handed
  over by the boot loader is read from memory at its C offsets.
\<close>

subsection \<open>Frame entries\<close>

definition get_frame_at :: "u32 \<Rightarrow> u32" where
  "get_frame_at index = FRAMES_START_VADDR + index * 12"

definition fr_ref_count :: "u32 \<Rightarrow> 'a machine_scheme \<Rightarrow> u32" where
  "fr_ref_count f s = ld f s"
definition fr_addr :: "u32 \<Rightarrow> 'a machine_scheme \<Rightarrow> u32" where
  "fr_addr f s = ld (f + 4) s"
definition fr_vaddr :: "u32 \<Rightarrow> 'a machine_scheme \<Rightarrow> u32" where
  "fr_vaddr f s = ld (f + 8) s"

definition fr_ref_count_set :: "u32 \<Rightarrow> u32 \<Rightarrow> 'a machine_scheme \<Rightarrow> 'a machine_scheme" where
  "fr_ref_count_set f v s = st f v s"
definition fr_vaddr_set :: "u32 \<Rightarrow> u32 \<Rightarrow> 'a machine_scheme \<Rightarrow> 'a machine_scheme" where
  "fr_vaddr_set f v s = st (f + 8) v s"

subsection \<open>Initialisation\<close>

text \<open>Offsets in \<open>memory_map_t\<close> and in \<open>multiboot_info_t\<close>.\<close>

definition mmap_base_addr_low :: "u32 \<Rightarrow> 'a machine_scheme \<Rightarrow> u32" where
  "mmap_base_addr_low p s = ld (p + 4) s"
definition mmap_length_low :: "u32 \<Rightarrow> 'a machine_scheme \<Rightarrow> u32" where
  "mmap_length_low p s = ld (p + 12) s"
definition mmap_type :: "u32 \<Rightarrow> 'a machine_scheme \<Rightarrow> u32" where
  "mmap_type p s = ld (p + 20) s"
definition mbi_mmap_length :: "u32 \<Rightarrow> 'a machine_scheme \<Rightarrow> u32" where
  "mbi_mmap_length p s = ld (p + 44) s"
definition mbi_mmap_addr :: "u32 \<Rightarrow> 'a machine_scheme \<Rightarrow> u32" where
  "mbi_mmap_addr p s = ld (p + 48) s"

function init_ram_frames_loop :: "u32 \<Rightarrow> u32 \<Rightarrow> 'a kmem_scheme \<Rightarrow> 'a kmem_scheme" where
  "init_ram_frames_loop fend_paddr cursor s =
     (if cursor < frames_count (g_frames_context s)
      then
        let addr = RAM_BASE_ADDR + cursor * FRAME_SIZE;
            frame = get_frame_at cursor;
            s = fr_ref_count_set frame (if addr < fend_paddr then 1 else 0) s;
            s = (if fr_ref_count frame s \<noteq> 0
                 then fr_vaddr_set frame (frames_meta_start_vaddr (g_frames_context s) + cursor * 12) s
                 else s)
        in init_ram_frames_loop fend_paddr (cursor + 1) s
      else s)"
  by pat_completeness auto
termination
  by (relation "measure (\<lambda>(_, cursor, s). unat (frames_count (g_frames_context s)) - unat cursor)")
    (auto simp: loop_measure fr_ref_count_set_def fr_vaddr_set_def st_def)

declare init_ram_frames_loop.simps [simp del]

definition init_ram_frames :: "u32 \<Rightarrow> 'a kmem_scheme \<Rightarrow> 'a kmem_scheme" where
  "init_ram_frames page_dir s =
     (let fend_paddr = get_physaddr page_dir (frames_meta_end_vaddr (g_frames_context s)) s;
          s = s\<lparr>mem := memset (mem s) (frames_meta_start_vaddr (g_frames_context s)) 0
                (frames_count (g_frames_context s) * 12)\<rparr>
      in init_ram_frames_loop fend_paddr 0 s)"

text \<open>\<open>map\<close> is dereferenced; after \<open>finalize_pagination\<close> nothing is mapped at 0.\<close>

definition setup_frames_addrs :: "u32 \<Rightarrow> u32 \<Rightarrow> 'a kmem_scheme \<Rightarrow> 'a kmem_scheme option" where
  "setup_frames_addrs page_dir mp s =
     (if mp = NULL then None
      else
        let ram_free_space = mmap_length_low mp s - KERNEL_SIZE_IN_RAM;
            nb_frames = ram_free_space div FRAME_SIZE;
            size_of_meta = nb_frames * 12;
            s = s\<lparr>g_frames_context :=
                  \<lparr>fc_map = mp,
                   frames_meta_start_vaddr = FRAMES_START_VADDR,
                   frames_meta_end_vaddr = FRAMES_START_VADDR + nb_frames * 12,
                   frames_count = nb_frames\<rparr>\<rparr>
        in Some (init_page_directory_for_frames page_dir size_of_meta s))"

function find_ram_loop :: "u32 \<Rightarrow> u32 \<Rightarrow> u32 \<Rightarrow> u32 \<Rightarrow> 'a kmem_scheme \<Rightarrow> (u32 \<times> 'a kmem_scheme) option" where
  "find_ram_loop mmaps sz cursor ram_addr s =
     (if cursor < sz
      then
        let mmap = mmaps + cursor * 24 in
        do {
          (_, s) \<leftarrow> kprintf ([CHR 0x09] @ ''Memory found at %p->%p of size %B %x b (%d)'' @ [CHR 0x0A])
            [VInt (mmap_base_addr_low mmap s),
             VInt (mmap_base_addr_low mmap s + mmap_length_low mmap s),
             VInt (mmap_length_low mmap s), VInt (mmap_length_low mmap s), VInt (mmap_type mmap s)] s;
          let ram_addr = (if mmap_base_addr_low mmap s = RAM_BASE_ADDR then mmap else ram_addr);
          find_ram_loop mmaps sz (cursor + 1) ram_addr s
        }
      else Some (ram_addr, s))"
  by pat_completeness auto
termination
  by (relation "measure (\<lambda>(_, sz, cursor, _, _). unat sz - unat cursor)") (auto simp: loop_measure)

declare find_ram_loop.simps [simp del]

definition init_frame_alloc :: "u32 \<Rightarrow> u32 \<Rightarrow> u32 \<Rightarrow> 'a kmem_scheme \<Rightarrow> 'a kmem_scheme option" where
  "init_frame_alloc page_dir kernel_end multiboot_info s =
     (let mmaps = SYSTEM_ADDR_BASE + mbi_mmap_addr multiboot_info s;
          sz = mbi_mmap_length multiboot_info s div 24
      in do {
        (_, s) \<leftarrow> kprintf ([CHR 0x0A] @ ''Kernel end is at address => %p'' @ [CHR 0x0A]) [VInt kernel_end] s;
        (_, s) \<leftarrow> kprintf ([CHR 0x09] @ ''Memory found length => %d'' @ [CHR 0x0A]) [VInt sz] s;
        (_, s) \<leftarrow> kprintf ([CHR 0x09] @ ''Memory found addr => %p'' @ [CHR 0x0A, CHR 0x0A]) [VInt mmaps] s;
        (_, s) \<leftarrow> kprintf ([CHR 0x0A] @ ''Available memories :'' @ [CHR 0x0A]) [] s;
        (ram_addr, s) \<leftarrow> find_ram_loop mmaps sz 0 NULL s;
        s \<leftarrow> setup_frames_addrs page_dir ram_addr s;
        Some (init_ram_frames page_dir s)
      })"

subsection \<open>Allocation\<close>

function alloc_frame_loop :: "u32 \<Rightarrow> 'a kmem_scheme \<Rightarrow> u32 \<times> 'a kmem_scheme" where
  "alloc_frame_loop cursor s =
     (if cursor < frames_count (g_frames_context s)
      then
        let frame = get_frame_at cursor
        in if fr_ref_count frame s = 0 then (frame, fr_ref_count_set frame 1 s)
           else alloc_frame_loop (cursor + 1) s
      else (NULL, s))"
  by pat_completeness auto
termination
  by (relation "measure (\<lambda>(cursor, s). unat (frames_count (g_frames_context s)) - unat cursor)")
    (auto simp: loop_measure)

declare alloc_frame_loop.simps [simp del]

definition alloc_frame :: "'a kmem_scheme \<Rightarrow> u32 \<times> 'a kmem_scheme" where
  "alloc_frame s = alloc_frame_loop 0 s"

function frames_set_ref_count_loop :: "u32 \<Rightarrow> int \<Rightarrow> u32 \<Rightarrow> int \<Rightarrow> 'a kmem_scheme \<Rightarrow> 'a kmem_scheme" where
  "frames_set_ref_count_loop frames n ref_count cursor s =
     (if cursor < n
      then frames_set_ref_count_loop (frames + 12) n ref_count (cursor + 1)
             (fr_ref_count_set frames ref_count s)
      else s)"
  by pat_completeness auto
termination
  by (relation "measure (\<lambda>(_, n, _, cursor, _). nat (n - cursor))") auto

declare frames_set_ref_count_loop.simps [simp del]

definition frames_set_ref_count :: "u32 \<Rightarrow> int \<Rightarrow> u32 \<Rightarrow> 'a kmem_scheme \<Rightarrow> 'a kmem_scheme" where
  "frames_set_ref_count frames n ref_count s = frames_set_ref_count_loop frames n ref_count 0 s"

text \<open>
  The result is the return code and, on success, the address stored through
  \<open>frames\<close>; on failure that variable is not written.
\<close>

function alloc_frames_loop ::
  "int \<Rightarrow> u32 \<Rightarrow> int \<Rightarrow> u32 \<Rightarrow> 'a kmem_scheme \<Rightarrow> retv \<times> u32 option \<times> 'a kmem_scheme" where
  "alloc_frames_loop n cursor count fsaved s =
     (if cursor < frames_count (g_frames_context s)
      then
        let fcurrent = get_frame_at cursor
        in if fr_ref_count fcurrent s = 0
           then
             let fsaved = (if fsaved = NULL then fcurrent else fsaved);
                 count = count + 1
             in if count = n then (SUCCES, Some fsaved, frames_set_ref_count fsaved n 1 s)
                else alloc_frames_loop n (cursor + 1) count fsaved s
           else alloc_frames_loop n (cursor + 1) 0 NULL s
      else (FAILED, None, s))"
  by pat_completeness auto
termination
  by (relation "measure (\<lambda>(_, cursor, _, _, s). unat (frames_count (g_frames_context s)) - unat cursor)")
    (auto simp: loop_measure)

declare alloc_frames_loop.simps [simp del]

definition alloc_frames :: "int \<Rightarrow> 'a kmem_scheme \<Rightarrow> retv \<times> u32 option \<times> 'a kmem_scheme" where
  "alloc_frames n s = alloc_frames_loop n 0 0 NULL s"

text \<open>\<open>ref_count\<close> is a signed \<open>int\<close>; decrementing the least one overflows.\<close>

definition free_frame :: "u32 \<Rightarrow> 'a kmem_scheme \<Rightarrow> 'a kmem_scheme option" where
  "free_frame frame s =
     (if sint (fr_ref_count frame s) = INT_MIN then None
      else
        let s = fr_ref_count_set frame (fr_ref_count frame s - 1) s
        in if sint (fr_ref_count frame s) < 0 then Some (fr_ref_count_set frame 0 s) else Some s)"

definition frame_to_phys :: "u32 \<Rightarrow> 'a kmem_scheme \<Rightarrow> u32" where
  "frame_to_phys f s = fr_addr f s"

definition phys_to_frame :: "u32 \<Rightarrow> u32" where
  "phys_to_frame addr =
     (let addr_in_frames = addr - 0x800000
      in get_frame_at (drop_bit 12 addr_in_frames))"

end
