(* ===== verification/Pages.thy ===== *)
theory Pages
  imports Frame
begin

text \<open>
  Virtual pages and the kernel break (the second half of \<^verbatim>\<open>src/pages.c\<close>):
  \<open>alloc_pages\<close>, \<open>map_pages\<close>, \<open>map_io\<close>, \<open>unmap_pages\<close> and \<open>sbrk\<close>. A page
  directory is given by the \<open>struct frame\<close> that describes it, of which the code reads
  the virtual address only. \<open>size_t\<close> and addresses are 32-bit words, \<open>ssize_t\<close> and
  \<open>int\<close> are integers.
\<close>

subsection \<open>alloc\_pages\<close>

definition pde_at :: "frame \<Rightarrow> u32 \<Rightarrow> u32" where
  "pde_at pdbr pde_cursor = f_vaddr pdbr + 4 * pde_cursor"

text \<open>
  The inner loop either returns from the function (\<^const>\<open>Inl\<close>) or leaves the
  variables \<open>vaddr\<close> and \<open>count\<close> to the outer loop.
\<close>

function alloc_pages_ptes ::
  "u32 \<Rightarrow> u32 \<Rightarrow> u32 \<Rightarrow> nat \<Rightarrow> u32 \<Rightarrow> u32 \<Rightarrow> 'a kmem_scheme \<Rightarrow> u32 + u32 \<times> u32" where
  "alloc_pages_ptes pde n pde_cursor pte_cursor vaddr count s =
     (if pte_cursor < 1024
      then
        let pte = PDE_PTADDR_TO_VADDR (pde_ptaddr (ld pde s)) + 4 * of_nat pte_cursor
        in if ld pte s AND PF_PRES = 0
           then (if count + 1 = n then Inl vaddr
                 else alloc_pages_ptes pde n pde_cursor (pte_cursor + 1) vaddr (count + 1) s)
           else alloc_pages_ptes pde n pde_cursor (pte_cursor + 1)
                  (pde_cursor * 0x400000 + of_nat pte_cursor * 0x1000) 0 s
      else Inr (vaddr, count))"
  by pat_completeness auto
termination
  by (relation "measure (\<lambda>(_, _, _, pte_cursor, _, _, _). 1024 - pte_cursor)") auto

declare alloc_pages_ptes.simps [simp del]

function alloc_pages_pdes ::
  "frame \<Rightarrow> u32 \<Rightarrow> nat \<Rightarrow> u32 \<Rightarrow> u32 \<Rightarrow> u32 \<Rightarrow> 'a kmem_scheme \<Rightarrow> u32" where
  "alloc_pages_pdes pdbr n pde_cursor pte_cursor vaddr count s =
     (if pde_cursor < 1024
      then
        let pde = pde_at pdbr (of_nat pde_cursor)
        in if ld pde s AND PF_PRES \<noteq> 0 \<and> ld pde s AND PF_4M = 0
           then (case alloc_pages_ptes pde n (of_nat pde_cursor) 0 vaddr count s of
                   Inl v \<Rightarrow> v
                 | Inr (vaddr, count) \<Rightarrow> alloc_pages_pdes pdbr n (pde_cursor + 1) 1024 vaddr count s)
           else alloc_pages_pdes pdbr n (pde_cursor + 1) pte_cursor
                  (of_nat pde_cursor * 0x400000 + pte_cursor * 0x1000) 0 s
      else NULL)"
  by pat_completeness auto
termination
  by (relation "measure (\<lambda>(_, _, pde_cursor, _, _, _, _). 1024 - pde_cursor)") auto

declare alloc_pages_pdes.simps [simp del]

definition alloc_pages :: "frame \<Rightarrow> u32 \<Rightarrow> 'a kmem_scheme \<Rightarrow> u32" where
  "alloc_pages pdbr n s =
     (let fvaddr = frames_meta_end_vaddr (get_frames_context s);
          pde_cursor = fvaddr div FOUR_MB;
          pte_cursor = (fvaddr - pde_cursor * FOUR_MB) div FRAME_SIZE + 1
      in alloc_pages_pdes pdbr n (unat pde_cursor) pte_cursor NULL 0 s)"

subsection \<open>map\_pages and unmap\_pages\<close>

definition pde_cursor_of :: "u32 \<Rightarrow> u32" where
  "pde_cursor_of vaddr = vaddr div FOUR_MB"

definition pte_cursor_of :: "u32 \<Rightarrow> u32" where
  "pte_cursor_of vaddr = (vaddr - pde_cursor_of vaddr * FOUR_MB) div FRAME_SIZE"

function map_pages_loop ::
  "frame \<Rightarrow> u32 \<Rightarrow> u32 \<Rightarrow> u32 \<Rightarrow> u32 \<Rightarrow> u32 \<Rightarrow> 'a kmem_scheme \<Rightarrow> (retv \<times> 'a kmem_scheme) option" where
  "map_pages_loop pdbr vaddr frames n flags cursor s =
     (if cursor < n
      then
        let pde_cursor = pde_cursor_of vaddr;
            pte_cursor = pte_cursor_of vaddr;
            pde = pde_at pdbr pde_cursor;
            s = (if ld pde s AND PF_PRES = 0
                 then st pde (pde_flags_set (PF_PRES OR PF_RW) (ld pde s)) s
                 else s)
        in if ld pde s AND PF_PRES \<noteq> 0 \<and> ld pde s AND PF_4M = 0
           then
             let pte = PDE_PTADDR_TO_VADDR (pde_ptaddr (ld pde s)) + 4 * pte_cursor
             in if ld pte s AND PF_PRES \<noteq> 0
                then do {
                  (_, s) \<leftarrow> kprintf (''map_pages failed: pde %d, pte %d pte->value: %b'' @ [CHR 0x0A])
                    [VInt pde_cursor, VInt pte_cursor, VInt (ld pte s)] s;
                  Some (FAILED, s)
                }
                else
                  let s = st pte (pte_addr_set (PTE_ADDR_HIGH (fr_addr frames s)) (ld pte s)) s;
                      s = st pte (pte_flags_set flags (ld pte s)) s;
                      s = native_flush_tlb_single pte s;
                      s = fr_ref_count_set frames (fr_ref_count frames s + 1) s;
                      s = fr_vaddr_set frames vaddr s
                  in map_pages_loop pdbr (vaddr + FRAME_SIZE) (frames + 12) n flags (cursor + 1) s
           else do {
             (_, s) \<leftarrow> kprintf (''map_pages failed: pde %d pde->value %b'' @ [CHR 0x0A])
               [VInt pde_cursor, VInt (ld pde s)] s;
             Some (FAILED, s)
           }
      else Some (SUCCES, s))"
  by pat_completeness auto
termination
  by (relation "measure (\<lambda>(_, _, _, n, _, cursor, _). unat n - unat cursor)") (auto simp: loop_measure)

declare map_pages_loop.simps [simp del]

definition map_pages ::
  "frame \<Rightarrow> u32 \<Rightarrow> u32 \<Rightarrow> u32 \<Rightarrow> u32 \<Rightarrow> 'a kmem_scheme \<Rightarrow> (retv \<times> 'a kmem_scheme) option" where
  "map_pages pdbr vaddr frames n flags s = map_pages_loop pdbr vaddr frames n flags 0 s"

text \<open>
  \<open>map_io\<close> describes the device range by a local \<open>struct frame\<close>, whose address on the
  stack is the parameter \<open>lframe\<close>. The result of \<open>map_pages\<close> is ignored.
\<close>

function map_io_loop ::
  "frame \<Rightarrow> u32 \<Rightarrow> u32 \<Rightarrow> u32 \<Rightarrow> u32 \<Rightarrow> 'a kmem_scheme \<Rightarrow> 'a kmem_scheme option" where
  "map_io_loop pdbr vaddr lframe nb_pages cursor s =
     (if cursor < nb_pages
      then do {
        (_, s) \<leftarrow> map_pages pdbr (vaddr + cursor * FRAME_SIZE) lframe 1 (PF_PRES OR PF_RW) s;
        let s = st (lframe + 4) (fr_addr lframe s + FRAME_SIZE) s;
        map_io_loop pdbr vaddr lframe nb_pages (cursor + 1) s
      }
      else Some s)"
  by pat_completeness auto
termination
  by (relation "measure (\<lambda>(_, _, _, nb_pages, cursor, _). unat nb_pages - unat cursor)")
    (auto simp: loop_measure)

declare map_io_loop.simps [simp del]

definition map_io :: "frame \<Rightarrow> u32 \<Rightarrow> u32 \<Rightarrow> u32 \<Rightarrow> 'a kmem_scheme \<Rightarrow> (u32 \<times> 'a kmem_scheme) option" where
  "map_io pdbr ioaddr len lframe s =
     (let nb_pages = len div FRAME_SIZE + (if len mod FRAME_SIZE > 0 then 1 else 0);
          s = st (lframe + 4) (ioaddr AND 0xFFFFF000) s;
          vaddr = alloc_pages pdbr nb_pages s
      in do {
        s \<leftarrow> map_io_loop pdbr vaddr lframe nb_pages 0 s;
        Some (vaddr + ioaddr - (ioaddr AND 0xFFFFF000), s)
      })"

text \<open>
  The page table is located with the 10-bit address field of a 4 MB entry
  (\<open>_4mb_fields.addr\<close>), as the code has it.
\<close>

function unmap_pages_loop :: "frame \<Rightarrow> u32 \<Rightarrow> u32 \<Rightarrow> u32 \<Rightarrow> 'a kmem_scheme \<Rightarrow> 'a kmem_scheme" where
  "unmap_pages_loop pdbr vaddr n cursor s =
     (if cursor < n
      then
        let pde = pde_at pdbr (pde_cursor_of vaddr);
            pte = PDE_PTADDR_TO_VADDR (pde4_addr (ld pde s)) + 4 * pte_cursor_of vaddr;
            s = st pte 0x0 s;
            s = native_flush_tlb_single pte s
        in unmap_pages_loop pdbr (vaddr + FRAME_SIZE) n (cursor + 1) s
      else s)"
  by pat_completeness auto
termination
  by (relation "measure (\<lambda>(_, _, n, cursor, _). unat n - unat cursor)") (auto simp: loop_measure)

declare unmap_pages_loop.simps [simp del]

definition unmap_pages :: "frame \<Rightarrow> u32 \<Rightarrow> int \<Rightarrow> 'a kmem_scheme \<Rightarrow> 'a kmem_scheme" where
  "unmap_pages pdbr vaddr n s = unmap_pages_loop pdbr vaddr (of_int n) 0 s"

subsection \<open>sbrk\<close>

text \<open>
  The start of the kernel data segment is written \<open>(void *) 0xc08000000\<close> in the source,
  a 36-bit literal converted to a 32-bit pointer.
\<close>

definition KDS_START :: u32 where
  "KDS_START = 0xc08000000"

definition get_kds_end_addr :: "'a kmem_scheme \<Rightarrow> u32" where
  "get_kds_end_addr s =
     (let nb_pages = g_kds_size s div getpagesize + (if g_kds_size s mod FRAME_SIZE > 0 then 1 else 0)
      in KDS_START + nb_pages * getpagesize)"

definition sbrk :: "int \<Rightarrow> 'a kmem_scheme \<Rightarrow> (u32 \<times> 'a kmem_scheme) option" where
  "sbrk sz s =
     do {
       (_, s) \<leftarrow> kprintf (''sbrk: %d'' @ [CHR 0x0A]) [VInt (of_int sz)] s;
       if sz = 0 then Some (get_kds_end_addr s, s)
       else do {
         r \<leftarrow> (if sz > 0
               then
                 let nb_pages = c_div sz 0x1000 + (if c_mod sz 0x1000 > 0 then 1 else 0);
                     mp = fc_map (get_frames_context s);
                     max_nb_pages = mmap_base_addr_low mp s + mmap_length_low mp s div FRAME_SIZE;
                     next_nb_pages = get_kds_size s div FRAME_SIZE + of_int nb_pages
                 in if next_nb_pages > max_nb_pages
                    then do {
                      (_, s) \<leftarrow> kprintf (''sbrk failed: not enough memory'' @ [CHR 0x0A]) [] s;
                      Some (Inl s)
                    }
                    else
                      case alloc_frames nb_pages s of
                        (FAILED, _, s) \<Rightarrow> Some (Inl s)
                      | (SUCCES, frames, s) \<Rightarrow> do {
                          fr \<leftarrow> frames;
                          (rv, s) \<leftarrow> map_pages (get_kpd_frame s) (get_kds_end_addr s) fr
                            (of_int nb_pages) (PF_PRES OR PF_RW) s;
                          Some (if rv = FAILED then Inl s else Inr s)
                        }
               else
                 let nb_pages = c_div (- sz) 0x1000 + (if c_mod (- sz) 0x1000 > 0 then 1 else 0)
                 in Some (Inr (unmap_pages (get_kpd_frame s)
                      (get_kds_end_addr s - of_int nb_pages * getpagesize) nb_pages s)));
         case r of
           Inl s \<Rightarrow> Some (MINUS_ONE, s)
         | Inr s \<Rightarrow>
             let old_kds_end = get_kds_end_addr s
             in Some (old_kds_end, s\<lparr>g_kds_size := g_kds_size s + of_int sz\<rparr>)
       }
     }"

end
