(* ===== verification/Kmalloc.thy ===== *)
theory Kmalloc
  imports Pages
begin

text \<open>
  The kernel heap (\<^verbatim>\<open>src/kmalloc\<close>): \<open>kmalloc\<close>, \<open>free\<close>, \<open>calloc\<close> and \<open>realloc\<close> on top
  of \<open>sbrk\<close>. The heap begins with a \<open>t_page_infos\<close> (8 bytes), followed by blocks, each a
  \<open>t_mem_infos\<close> header of 16 bytes and its payload. The headers are in memory at their C
  offsets; \<open>bool\<close> is a 4-byte enumeration. The static variable \<open>first\<close> of
  \<open>get_first_value\<close> is a field of the state. Pointers are compared as addresses; a
  difference of two pointers taken as \<open>long\<close> wraps and is divided as a \<open>size_t\<close>, the type
  of \<open>getpagesize()\<close>.

  A walk over the blocks that does not end, and an access through a null
  \<open>t_page_infos\<close>, where nothing is mapped, are \<^const>\<open>None\<close>.
\<close>

record heap = kmem +
  first :: u32

abbreviation TRUE :: u32 where "TRUE \<equiv> 1"
abbreviation FALSE :: u32 where "FALSE \<equiv> 0"

definition SIZEOF_MEM_INFOS :: u32 where "SIZEOF_MEM_INFOS = 16"
definition SIZEOF_PAGE_INFOS :: u32 where "SIZEOF_PAGE_INFOS = 8"

definition pi_nb_pages :: "u32 \<Rightarrow> 'a machine_scheme \<Rightarrow> u32" where "pi_nb_pages p s = ld p s"
definition pi_max_pos :: "u32 \<Rightarrow> 'a machine_scheme \<Rightarrow> u32" where "pi_max_pos p s = ld (p + 4) s"
definition pi_nb_pages_set :: "u32 \<Rightarrow> u32 \<Rightarrow> 'a machine_scheme \<Rightarrow> 'a machine_scheme" where
  "pi_nb_pages_set p v s = st p v s"
definition pi_max_pos_set :: "u32 \<Rightarrow> u32 \<Rightarrow> 'a machine_scheme \<Rightarrow> 'a machine_scheme" where
  "pi_max_pos_set p v s = st (p + 4) v s"

definition mi_size :: "u32 \<Rightarrow> 'a machine_scheme \<Rightarrow> u32" where "mi_size p s = ld p s"
definition mi_is_free :: "u32 \<Rightarrow> 'a machine_scheme \<Rightarrow> u32" where "mi_is_free p s = ld (p + 4) s"
definition mi_begin :: "u32 \<Rightarrow> 'a machine_scheme \<Rightarrow> u32" where "mi_begin p s = ld (p + 8) s"
definition mi_next :: "u32 \<Rightarrow> 'a machine_scheme \<Rightarrow> u32" where "mi_next p s = ld (p + 12) s"
definition mi_size_set :: "u32 \<Rightarrow> u32 \<Rightarrow> 'a machine_scheme \<Rightarrow> 'a machine_scheme" where
  "mi_size_set p v s = st p v s"
definition mi_is_free_set :: "u32 \<Rightarrow> u32 \<Rightarrow> 'a machine_scheme \<Rightarrow> 'a machine_scheme" where
  "mi_is_free_set p v s = st (p + 4) v s"
definition mi_begin_set :: "u32 \<Rightarrow> u32 \<Rightarrow> 'a machine_scheme \<Rightarrow> 'a machine_scheme" where
  "mi_begin_set p v s = st (p + 8) v s"
definition mi_next_set :: "u32 \<Rightarrow> u32 \<Rightarrow> 'a machine_scheme \<Rightarrow> 'a machine_scheme" where
  "mi_next_set p v s = st (p + 12) v s"

definition ERROR_SBRK_MSG :: string where
  "ERROR_SBRK_MSG = ''kmalloc/free Error : sbrk() failed'' @ [CHR 0x0A]"

subsection \<open>mem\_infos.c\<close>

definition get_first_value :: "'a heap_scheme \<Rightarrow> (u32 \<times> 'a heap_scheme) option" where
  "get_first_value s =
     (if first s = 0
      then do {
        (page_infos, s) \<leftarrow> sbrk (sint (SIZEOF_PAGE_INFOS + getpagesize)) s;
        if page_infos = MINUS_ONE then Some (NULL, s)
        else
          let s = s\<lparr>first := page_infos\<rparr>;
              s = pi_nb_pages_set page_infos 1 s;
              s = pi_max_pos_set page_infos (page_infos + SIZEOF_PAGE_INFOS) s
          in Some (first s, s)
      }
      else Some (first s, s))"

partial_function (option) mem_dump_loop :: "u32 \<Rightarrow> u32 \<Rightarrow> 'a heap_scheme \<Rightarrow> 'a heap_scheme option" where
  "mem_dump_loop page_infos mem_infos s =
     (if mem_infos \<noteq> NULL \<and> mem_infos < pi_max_pos page_infos s
      then
        if mi_is_free mem_infos s = FALSE
        then do {
          (_, s) \<leftarrow> kprintf (''%p - %p : %u octets'' @ [CHR 0x0A])
            [VInt (mi_begin mem_infos s), VInt (mi_next mem_infos s), VInt (mi_size mem_infos s)] s;
          mem_dump_loop page_infos (mi_next mem_infos s) s
        }
        else mem_dump_loop page_infos (mi_next mem_infos s) s
      else Some s)"

definition mem_dump :: "'a heap_scheme \<Rightarrow> 'a heap_scheme option" where
  "mem_dump s = do {
     (page_infos, s) \<leftarrow> get_first_value s;
     if page_infos = NULL then None
     else mem_dump_loop page_infos (page_infos + SIZEOF_PAGE_INFOS) s
   }"

subsection \<open>add\_value.c\<close>

text \<open>\<open>free_size\<close> is an \<open>int\<close>: a difference of \<open>2 ^ 31\<close> or more counts as negative.\<close>

definition prepare_split_value :: "u32 \<Rightarrow> u32 \<Rightarrow> 'a heap_scheme \<Rightarrow> 'a heap_scheme" where
  "prepare_split_value min_avaible_place sz s =
     (let s = mi_is_free_set min_avaible_place FALSE s;
          free_size = sint (mi_size min_avaible_place s - sz)
      in if free_size > 0 \<and> (of_int free_size :: u32) \<ge> SIZEOF_MEM_INFOS + 1
         then
           let mem_infos = mi_begin min_avaible_place s + sz;
               s = mi_begin_set mem_infos (mem_infos + SIZEOF_MEM_INFOS) s;
               s = mi_is_free_set mem_infos TRUE s;
               s = mi_size_set mem_infos (of_int free_size - SIZEOF_MEM_INFOS) s;
               s = mi_next_set mem_infos (mem_infos + SIZEOF_MEM_INFOS + mi_size mem_infos s) s;
               s = mi_size_set min_avaible_place sz s
           in mi_next_set min_avaible_place mem_infos s
         else s)"

partial_function (option) search_loop ::
  "u32 \<Rightarrow> u32 \<Rightarrow> u32 \<Rightarrow> u32 \<Rightarrow> 'a heap_scheme \<Rightarrow> u32 option" where
  "search_loop page_infos sz mem_infos min_avaible_place s =
     (if mem_infos \<noteq> NULL \<and> mem_infos < pi_max_pos page_infos s
      then search_loop page_infos sz (mi_next mem_infos s)
             (if mi_is_free mem_infos s = TRUE \<and> mi_size mem_infos s \<ge> sz \<and>
                 (min_avaible_place = NULL \<or> mi_size mem_infos s < mi_size min_avaible_place s)
              then mem_infos else min_avaible_place) s
      else Some min_avaible_place)"

definition mem_search_place :: "u32 \<Rightarrow> 'a heap_scheme \<Rightarrow> (u32 \<times> 'a heap_scheme) option" where
  "mem_search_place sz s = do {
     (page_infos, s) \<leftarrow> get_first_value s;
     if page_infos = NULL then None
     else do {
       min_avaible_place \<leftarrow> search_loop page_infos sz (page_infos + SIZEOF_PAGE_INFOS) NULL s;
       if min_avaible_place \<noteq> NULL
       then
         let s = prepare_split_value min_avaible_place sz s
         in Some (mi_begin min_avaible_place s, s)
       else Some (NULL, s)
     }
   }"

definition pagesize_add_update :: "u32 \<Rightarrow> u32 \<Rightarrow> 'a heap_scheme \<Rightarrow> (retv \<times> 'a heap_scheme) option" where
  "pagesize_add_update page_infos sz s =
     (let new_end = pi_max_pos page_infos s + SIZEOF_MEM_INFOS + sz;
          segment_end = page_infos + SIZEOF_PAGE_INFOS + pi_nb_pages page_infos s * getpagesize;
          nb_pages = (if new_end > segment_end then sint ((new_end - segment_end) div getpagesize) + 1 else 0)
      in if nb_pages > 0
         then do {
           (r, s) \<leftarrow> sbrk (sint (of_int nb_pages * getpagesize)) s;
           if r = MINUS_ONE
           then do {
             (_, s) \<leftarrow> kprintf ERROR_SBRK_MSG [] s;
             Some (FAILED, s)
           }
           else Some (SUCCES, pi_nb_pages_set page_infos (pi_nb_pages page_infos s + of_int nb_pages) s)
         }
         else Some (SUCCES, s))"

definition mem_add_value :: "u32 \<Rightarrow> 'a heap_scheme \<Rightarrow> (u32 \<times> 'a heap_scheme) option" where
  "mem_add_value sz s = do {
     (page_infos, s) \<leftarrow> get_first_value s;
     if page_infos = NULL then Some (NULL, s)
     else do {
       (ptr, s) \<leftarrow> mem_search_place sz s;
       if ptr \<noteq> NULL then Some (ptr, s)
       else do {
         (rv, s) \<leftarrow> pagesize_add_update page_infos sz s;
         if rv = FAILED then Some (NULL, s)
         else
           let mem_infos = pi_max_pos page_infos s;
               s = mi_size_set mem_infos sz s;
               s = mi_is_free_set mem_infos FALSE s;
               s = mi_begin_set mem_infos (mem_infos + SIZEOF_MEM_INFOS) s;
               s = mi_next_set mem_infos (mi_begin mem_infos s + sz) s;
               s = pi_max_pos_set page_infos (mi_next mem_infos s) s
           in Some (mi_begin mem_infos s, s)
       }
     }
   }"

definition kmalloc :: "u32 \<Rightarrow> 'a heap_scheme \<Rightarrow> (u32 \<times> 'a heap_scheme) option" where
  "kmalloc sz s = (if sz = 0 then Some (NULL, s) else mem_add_value sz s)"

subsection \<open>rm\_value.c\<close>

definition merge_freed_ptr :: "u32 \<Rightarrow> u32 \<Rightarrow> u32 \<Rightarrow> 'a heap_scheme \<Rightarrow> u32 \<times> 'a heap_scheme" where
  "merge_freed_ptr page_infos mem_infos before s =
     (let s = (if pi_max_pos page_infos s > mem_infos
               then
                 let after = mem_infos + SIZEOF_MEM_INFOS + mi_size mem_infos s
                 in if after < pi_max_pos page_infos s \<and> mi_is_free after s = TRUE
                    then mi_size_set mem_infos (mi_size mem_infos s + (SIZEOF_MEM_INFOS + mi_size after s)) s
                    else s
               else s)
      in if before \<noteq> mem_infos \<and> mi_is_free before s = TRUE
         then (before, mi_size_set before (mi_size before s + (SIZEOF_MEM_INFOS + mi_size mem_infos s)) s)
         else (mem_infos, s))"

definition pagesize_rm_update :: "u32 \<Rightarrow> u32 \<Rightarrow> 'a heap_scheme \<Rightarrow> (retv \<times> 'a heap_scheme) option" where
  "pagesize_rm_update page_infos mem_infos s =
     (let nb_pages =
            (if mi_next mem_infos s \<ge> pi_max_pos page_infos s
             then sint ((page_infos + SIZEOF_PAGE_INFOS + pi_nb_pages page_infos s * getpagesize - mem_infos)
                    div getpagesize)
             else 0)
      in if nb_pages > 0
         then do {
           (r, s) \<leftarrow> sbrk (sint (- (of_int nb_pages * getpagesize))) s;
           if r = MINUS_ONE
           then do {
             (_, s) \<leftarrow> kprintf ERROR_SBRK_MSG [] s;
             Some (FAILED, s)
           }
           else
             let s = pi_nb_pages_set page_infos (pi_nb_pages page_infos s - of_int nb_pages) s
             in Some (SUCCES, pi_max_pos_set page_infos mem_infos s)
         }
         else Some (SUCCES, s))"

partial_function (option) mem_rm_loop ::
  "u32 \<Rightarrow> u32 \<Rightarrow> u32 \<Rightarrow> u32 \<Rightarrow> 'a heap_scheme \<Rightarrow> 'a heap_scheme option" where
  "mem_rm_loop page_infos ptr mem_infos last_infos s =
     (if mem_infos \<noteq> NULL \<and> mem_infos < pi_max_pos page_infos s
      then
        if mi_begin mem_infos s = ptr
        then
          case merge_freed_ptr page_infos mem_infos last_infos s of
            (mem_infos, s) \<Rightarrow>
              let s = mi_is_free_set mem_infos TRUE s;
                  s = mi_begin_set mem_infos (mem_infos + SIZEOF_MEM_INFOS) s;
                  s = mi_next_set mem_infos (mi_begin mem_infos s + mi_size mem_infos s) s
              in do {
                (_, s) \<leftarrow> pagesize_rm_update page_infos mem_infos s;
                Some s
              }
        else mem_rm_loop page_infos ptr (mi_next mem_infos s) mem_infos s
      else Some s)"

definition mem_rm_value :: "u32 \<Rightarrow> 'a heap_scheme \<Rightarrow> 'a heap_scheme option" where
  "mem_rm_value ptr s = do {
     (page_infos, s) \<leftarrow> get_first_value s;
     if page_infos = NULL then None
     else
       let mem_infos = page_infos + SIZEOF_PAGE_INFOS
       in mem_rm_loop page_infos ptr mem_infos mem_infos s
   }"

definition free :: "u32 \<Rightarrow> 'a heap_scheme \<Rightarrow> 'a heap_scheme option" where
  "free ptr s = mem_rm_value ptr s"

subsection \<open>calloc.c and realloc.c\<close>

definition calloc :: "u32 \<Rightarrow> u32 \<Rightarrow> 'a heap_scheme \<Rightarrow> (u32 \<times> 'a heap_scheme) option" where
  "calloc nmemb sz s =
     (let total_size = nmemb * sz
      in do {
        (new, s) \<leftarrow> kmalloc total_size s;
        if new = NULL then Some (NULL, s)
        else Some (new, s\<lparr>mem := memset (mem s) new 0 total_size\<rparr>)
      })"

definition realloc :: "u32 \<Rightarrow> u32 \<Rightarrow> 'a heap_scheme \<Rightarrow> (u32 \<times> 'a heap_scheme) option" where
  "realloc ptr sz s =
     (if sz = 0 \<and> ptr \<noteq> NULL
      then do {
        s \<leftarrow> free ptr s;
        Some (NULL, s)
      }
      else if ptr = NULL then kmalloc sz s
      else
        let mem_infos = ptr - SIZEOF_MEM_INFOS
        in if mi_size mem_infos s \<ge> sz then Some (ptr, s)
           else do {
             (new, s) \<leftarrow> kmalloc sz s;
             if new = NULL then Some (NULL, s)
             else Some (new, s\<lparr>mem := memcpy (mem s) new ptr (mi_size mem_infos s)\<rparr>)
           })"

end
