(* ===== verification/Segmentation.thy ===== *)
theory Segmentation
  imports Kmalloc
begin

text \<open>
  The global descriptor table and the task state segment (\<^verbatim>\<open>src/segmentation.c\<close>,
  \<^verbatim>\<open>inc/segmentation.h\<close>). The addresses of \<open>g_gdt\<close> and \<open>g_tss\<close> are chosen by the linker and
  the stack pointer is read from the processor: they are parameters. The assembly routines
  \<open>gdt_flush\<close> and \<open>tss_flush\<close> of \<^verbatim>\<open>src/crt0.S\<close> load the processor's registers, which are
  fields of the state. A bit field keeps the low bits of the value stored in it.
\<close>

record gdt_entry =
  limit_low :: u16
  base_low :: u16
  base_mid :: u8
  access :: u8
  limit_high :: u8
  avl :: u8
  l_bit :: u8
  d_b :: u8
  gran :: u8
  base_high :: u8

record tss_entry =
  prev_tss :: u32
  tss_esp0 :: u32
  tss_ss0 :: u32
  tss_esp1 :: u32
  tss_ss1 :: u32
  tss_esp2 :: u32
  tss_ss2 :: u32
  tss_cr3 :: u32
  tss_eip :: u32
  tss_eflags :: u32
  tss_eax :: u32
  tss_ecx :: u32
  tss_edx :: u32
  tss_ebx :: u32
  tss_esp :: u32
  tss_ebp :: u32
  tss_esi :: u32
  tss_edi :: u32
  tss_es :: u32
  tss_cs :: u32
  tss_ss :: u32
  tss_ds :: u32
  tss_fs :: u32
  tss_gs :: u32
  tss_ldt :: u32
  tss_trap :: u16
  tss_iomap_base :: u16

text \<open>\<open>seg_regs\<close> holds the selectors in \<open>cs\<close> and in the data segment registers.\<close>

record segs = heap +
  g_gdt :: "gdt_entry list"
  g_tss :: tss_entry
  gdt_register :: "(u16 \<times> u32) option"
  seg_regs :: "u16 \<times> u16"
  task_register :: u16

definition GDT_SIZE :: int where "GDT_SIZE = 6"
definition SEGMENT_BASE :: u32 where "SEGMENT_BASE = 0x00000000"
definition SEGMENT_LIMIT :: u32 where "SEGMENT_LIMIT = 0xFFFFFFFF"
definition GRANULARITY_ENABLE :: u8 where "GRANULARITY_ENABLE = 0x1"
definition GRANULARITY_DISABLE :: u8 where "GRANULARITY_DISABLE = 0x0"
definition SEG_NOT_PRESENT :: u32 where "SEG_NOT_PRESENT = push_bit 7 0"
definition RING_LVL_0 :: u32 where "RING_LVL_0 = push_bit 5 0"
definition RING_LVL_3 :: u32 where "RING_LVL_3 = push_bit 5 3"
definition DTYPE_SYSTEM :: u32 where "DTYPE_SYSTEM = push_bit 4 0"
definition DTYPE_CODE_OR_DATA :: u32 where "DTYPE_CODE_OR_DATA = push_bit 4 1"
definition DPB_DATA_RW :: u32 where "DPB_DATA_RW = 2"
definition DPB_CODE_ER :: u32 where "DPB_CODE_ER = 10"
definition DPB_DATA_RO :: u32 where "DPB_DATA_RO = 0"
definition SIZEOF_GDT_ENTRY :: u32 where "SIZEOF_GDT_ENTRY = 8"
definition SIZEOF_TSS_ENTRY :: u32 where "SIZEOF_TSS_ENTRY = 104"

definition null_tss :: tss_entry where
  "null_tss = \<lparr>prev_tss = 0, tss_esp0 = 0, tss_ss0 = 0, tss_esp1 = 0, tss_ss1 = 0, tss_esp2 = 0, tss_ss2 = 0,
     tss_cr3 = 0, tss_eip = 0, tss_eflags = 0, tss_eax = 0, tss_ecx = 0, tss_edx = 0, tss_ebx = 0, tss_esp = 0,
     tss_ebp = 0, tss_esi = 0, tss_edi = 0, tss_es = 0, tss_cs = 0, tss_ss = 0, tss_ds = 0, tss_fs = 0, tss_gs = 0,
     tss_ldt = 0, tss_trap = 0, tss_iomap_base = 0\<rparr>"

subsection \<open>Operations\<close>

definition set_gdt_entry ::
  "int \<Rightarrow> u32 \<Rightarrow> u32 \<Rightarrow> u8 \<Rightarrow> u8 \<Rightarrow> 'a segs_scheme \<Rightarrow> (int \<times> 'a segs_scheme) option" where
  "set_gdt_entry n base limit acc gr s =
     (if n \<ge> GDT_SIZE then Some (-1, s)
      else if n < 0 then None
      else
        let e = \<lparr>limit_low = ucast (limit AND 0xffff),
                 base_low = ucast (base AND 0xffff),
                 base_mid = ucast (drop_bit 16 base AND 0xff),
                 access = acc,
                 limit_high = ucast (drop_bit 16 limit AND 0xf),
                 avl = 0x0,
                 l_bit = 0x0,
                 d_b = 0x1,
                 gran = gr AND 1,
                 base_high = ucast (drop_bit 24 base AND 0xff)\<rparr>;
            s = s\<lparr>g_gdt := (g_gdt s)[nat n := e]\<rparr>
        in do {
          (_, s) \<leftarrow> kprintf (''GDT[%d]: base: %p, limit: %p, access: %x, granularity: %b'' @ [CHR 0x0A])
            [VInt (of_int n), VInt base, VInt (ucast (limit_low e)), VInt (ucast acc), VInt (ucast gr)] s;
          Some (0, s)
        })"

definition set_tss_entry ::
  "u32 \<Rightarrow> int \<Rightarrow> u16 \<Rightarrow> u32 \<Rightarrow> 'a segs_scheme \<Rightarrow> (int \<times> 'a segs_scheme) option" where
  "set_tss_entry tss_addr n ss0 esp0 s =
     (if n \<ge> GDT_SIZE then Some (-1, s)
      else
        let base = tss_addr;
            limit = base + SIZEOF_TSS_ENTRY
        in do {
          (_, s) \<leftarrow> set_gdt_entry n base limit 0xe9 0x0 s;
          let s = s\<lparr>g_tss := null_tss\<rparr>;
          let s = s\<lparr>g_tss := (g_tss s)\<lparr>tss_ss0 := ucast ss0, tss_esp0 := esp0, tss_cs := 0x08 OR 0x3\<rparr>\<rparr>;
          let s = s\<lparr>g_tss := (g_tss s)\<lparr>tss_ss := 0x10 OR 0x3, tss_ds := 0x10 OR 0x3, tss_es := 0x10 OR 0x3,
                    tss_fs := 0x10 OR 0x3, tss_gs := 0x10 OR 0x3\<rparr>\<rparr>;
          (_, s) \<leftarrow> kprintf (''TSS: base: %p, limit: %p, ss0: %p, esp0: %p'' @ [CHR 0x0A])
            [VInt base, VInt limit, VInt (ucast ss0), VInt esp0] s;
          Some (0, s)
        })"

definition tss_set_esp :: "u32 \<Rightarrow> 'a segs_scheme \<Rightarrow> 'a segs_scheme" where
  "tss_set_esp esp0 s = s\<lparr>g_tss := (g_tss s)\<lparr>tss_esp0 := esp0\<rparr>\<rparr>"

definition gdt_flush :: "u16 \<times> u32 \<Rightarrow> 'a segs_scheme \<Rightarrow> 'a segs_scheme" where
  "gdt_flush gdt_addr s = s\<lparr>gdt_register := Some gdt_addr, seg_regs := (0x08, 0x10)\<rparr>"

definition tss_flush :: "'a segs_scheme \<Rightarrow> 'a segs_scheme" where
  "tss_flush s = s\<lparr>task_register := 0x2B\<rparr>"

definition flush_gdt_and_tss :: "u32 \<Rightarrow> 'a segs_scheme \<Rightarrow> 'a segs_scheme" where
  "flush_gdt_and_tss gdt_addr s =
     (let base = gdt_addr;
          limit = ucast (SIZEOF_GDT_ENTRY * of_int GDT_SIZE - 1)
      in tss_flush (gdt_flush (limit, base) s))"

definition init_flat_gdt :: "u32 \<Rightarrow> u32 \<Rightarrow> u32 \<Rightarrow> 'a segs_scheme \<Rightarrow> 'a segs_scheme option" where
  "init_flat_gdt gdt_addr tss_addr esp s =
     do {
       let acc = DPB_DATA_RO OR RING_LVL_0 OR SEG_NOT_PRESENT OR DTYPE_SYSTEM;
       (_, s) \<leftarrow> set_gdt_entry 0 SEGMENT_BASE SEGMENT_BASE (ucast acc) GRANULARITY_DISABLE s;
       let acc = DPB_CODE_ER OR RING_LVL_0 OR SEG_PRESENT OR DTYPE_CODE_OR_DATA;
       (_, s) \<leftarrow> set_gdt_entry 1 SEGMENT_BASE SEGMENT_LIMIT (ucast acc) GRANULARITY_ENABLE s;
       let acc = DPB_DATA_RW OR RING_LVL_0 OR SEG_PRESENT OR DTYPE_CODE_OR_DATA;
       (_, s) \<leftarrow> set_gdt_entry 2 SEGMENT_BASE SEGMENT_LIMIT (ucast acc) GRANULARITY_ENABLE s;
       let acc = DPB_CODE_ER OR RING_LVL_3 OR SEG_PRESENT OR DTYPE_CODE_OR_DATA;
       (_, s) \<leftarrow> set_gdt_entry 3 SEGMENT_BASE SEGMENT_LIMIT (ucast acc) GRANULARITY_ENABLE s;
       let acc = DPB_DATA_RW OR RING_LVL_3 OR SEG_PRESENT OR DTYPE_CODE_OR_DATA;
       (_, s) \<leftarrow> set_gdt_entry 4 SEGMENT_BASE SEGMENT_LIMIT (ucast acc) GRANULARITY_ENABLE s;
       (_, s) \<leftarrow> set_tss_entry tss_addr 5 0x10 esp s;
       Some (flush_gdt_and_tss gdt_addr s)
     }"

subsection \<open>What the processor reads from a descriptor\<close>

definition seg_base :: "gdt_entry \<Rightarrow> u32" where
  "seg_base e = ucast (base_low e) OR push_bit 16 (ucast (base_mid e)) OR push_bit 24 (ucast (base_high e))"

definition raw_limit :: "gdt_entry \<Rightarrow> u32" where
  "raw_limit e = ucast (limit_low e) OR push_bit 16 (ucast (limit_high e))"

definition seg_limit :: "gdt_entry \<Rightarrow> u32" where
  "seg_limit e = (if gran e = 1 then push_bit 12 (raw_limit e) OR 0xFFF else raw_limit e)"

text \<open>Privilege level and present bit of the access byte.\<close>

definition seg_dpl :: "gdt_entry \<Rightarrow> u8" where "seg_dpl e = drop_bit 5 (access e) AND 3"
definition seg_present :: "gdt_entry \<Rightarrow> bool" where "seg_present e \<longleftrightarrow> bit (access e) 7"

definition descriptor :: "u32 \<Rightarrow> u32 \<Rightarrow> u8 \<Rightarrow> u8 \<Rightarrow> gdt_entry" where
  "descriptor base limit acc gr =
     \<lparr>limit_low = ucast (limit AND 0xffff), base_low = ucast (base AND 0xffff), base_mid = ucast (drop_bit 16 base AND 0xff),
      access = acc, limit_high = ucast (drop_bit 16 limit AND 0xf), avl = 0x0, l_bit = 0x0, d_b = 0x1, gran = gr AND 1,
      base_high = ucast (drop_bit 24 base AND 0xff)\<rparr>"

lemma masks: "(0xffff :: u32) = mask 16" "(0xff :: u32) = mask 8" "(0xf :: u32) = mask 4" "(0xFFFFF :: u32) = mask 20" "(0xFFF :: u32) = mask 12"
  by (simp_all add: mask_eq_exp_minus_1)

lemma descriptor_base [simp]: "seg_base (descriptor base limit acc gr) = base"
proof (rule bit_word_eqI)
  fix i assume "i < LENGTH(32)"
  then consider "i < 16" | "16 \<le> i" "i < 24" | "24 \<le> i" "i < 32" by fastforce
  then show "bit (seg_base (descriptor base limit acc gr)) i = bit base i"
    by cases (auto simp: seg_base_def descriptor_def masks bit_simps)
qed

lemma descriptor_limit [simp]: "raw_limit (descriptor base limit acc gr) = limit AND 0xFFFFF"
proof (rule bit_word_eqI)
  fix i assume "i < LENGTH(32)"
  then consider "i < 16" | "16 \<le> i" "i < 20" | "20 \<le> i" "i < 32" by fastforce
  then show "bit (raw_limit (descriptor base limit acc gr)) i = bit (limit AND 0xFFFFF) i"
    by cases (auto simp: raw_limit_def descriptor_def masks bit_simps)
qed

lemma descriptor_access [simp]: "access (descriptor base limit acc gr) = acc" "gran (descriptor base limit acc gr) = gr AND 1"
  by (simp_all add: descriptor_def)

subsection \<open>The table after its initialisation\<close>

lemma set_gdt_entry_spec:
  assumes "0 \<le> n" and "n < GDT_SIZE"
  obtains s' where "set_gdt_entry n base limit acc gr s = Some (0, s')"
    "printed (s\<lparr>g_gdt := (g_gdt s)[nat n := descriptor base limit acc gr]\<rparr>) s'"
proof -
  have "sint (of_int n :: u32) = n" using assms by (simp add: GDT_SIZE_def signed_of_int signed_take_bit_int_eq_self)
  then have n: "sint (of_int n :: u32) \<noteq> INT_MIN" using assms by (simp add: INT_MIN_def)
  let ?s = "s\<lparr>g_gdt := (g_gdt s)[nat n := descriptor base limit acc gr]\<rparr>"
  have "render (''GDT[%d]: base: %p, limit: %p, access: %x, granularity: %b'' @ [CHR 0x0A])
            [VInt (of_int n), VInt base, VInt (ucast (limit_low (descriptor base limit acc gr))), VInt (ucast acc), VInt (ucast gr)] \<noteq> None"
    using n sint_ucast_small(1) [of gr] by (simp add: render_simps)
  then obtain r s' where "kprintf (''GDT[%d]: base: %p, limit: %p, access: %x, granularity: %b'' @ [CHR 0x0A])
            [VInt (of_int n), VInt base, VInt (ucast (limit_low (descriptor base limit acc gr))), VInt (ucast acc), VInt (ucast gr)] ?s =
            Some (r, s')" "printed ?s s'" by (rule kprintf_printed)
  moreover from this have "set_gdt_entry n base limit acc gr s = Some (0, s')"
    using assms unfolding set_gdt_entry_def descriptor_def [symmetric] Let_def by simp
  ultimately show ?thesis by (intro that)
qed

definition kernel_tss :: "u32 \<Rightarrow> u16 \<Rightarrow> tss_entry" where
  "kernel_tss esp0 ss0 = null_tss\<lparr>tss_ss0 := ucast ss0, tss_esp0 := esp0, tss_cs := 0x0B, tss_ss := 0x13, tss_ds := 0x13,
     tss_es := 0x13, tss_fs := 0x13, tss_gs := 0x13\<rparr>"

lemma set_tss_entry_spec:
  assumes "0 \<le> n" and "n < GDT_SIZE"
  obtains s' where "set_tss_entry tss_addr n ss0 esp0 s = Some (0, s')"
    "printed (s\<lparr>g_gdt := (g_gdt s)[nat n := descriptor tss_addr (tss_addr + SIZEOF_TSS_ENTRY) 0xe9 0], g_tss := kernel_tss esp0 ss0\<rparr>) s'"
proof -
  obtain s1 where s1: "set_gdt_entry n tss_addr (tss_addr + SIZEOF_TSS_ENTRY) 0xe9 0 s = Some (0, s1)"
    "printed (s\<lparr>g_gdt := (g_gdt s)[nat n := descriptor tss_addr (tss_addr + SIZEOF_TSS_ENTRY) 0xe9 0]\<rparr>) s1"
    by (rule set_gdt_entry_spec [OF assms])
  let ?s = "s1\<lparr>g_tss := kernel_tss esp0 ss0\<rparr>"
  have "render (''TSS: base: %p, limit: %p, ss0: %p, esp0: %p'' @ [CHR 0x0A])
      [VInt tss_addr, VInt (tss_addr + SIZEOF_TSS_ENTRY), VInt (ucast ss0), VInt esp0] \<noteq> None"
    by (simp add: render_simps)
  then obtain r s' where s': "kprintf (''TSS: base: %p, limit: %p, ss0: %p, esp0: %p'' @ [CHR 0x0A])
      [VInt tss_addr, VInt (tss_addr + SIZEOF_TSS_ENTRY), VInt (ucast ss0), VInt esp0] ?s = Some (r, s')" "printed ?s s'"
    by (rule kprintf_printed)
  have "set_tss_entry tss_addr n ss0 esp0 s = Some (0, s')"
    using assms(2) s1(1) s'(1) by (simp add: set_tss_entry_def Let_def kernel_tss_def)
  moreover have "printed (s\<lparr>g_gdt := (g_gdt s)[nat n := descriptor tss_addr (tss_addr + SIZEOF_TSS_ENTRY) 0xe9 0], g_tss := kernel_tss esp0 ss0\<rparr>) s'"
    using s1(2) s'(2) unfolding printed_def by clarsimp blast
  ultimately show ?thesis by (rule that)
qed

definition flat_gdt :: "u32 \<Rightarrow> gdt_entry list" where
  "flat_gdt tss_addr = [descriptor 0 0 0 0, descriptor 0 0xFFFFFFFF 0x9A 1, descriptor 0 0xFFFFFFFF 0x92 1,
     descriptor 0 0xFFFFFFFF 0xFA 1, descriptor 0 0xFFFFFFFF 0xF2 1, descriptor tss_addr (tss_addr + SIZEOF_TSS_ENTRY) 0xe9 0]"

lemma access_values:
  "(ucast (DPB_DATA_RO OR RING_LVL_0 OR SEG_NOT_PRESENT OR DTYPE_SYSTEM) :: u8) = 0"
  "(ucast (DPB_CODE_ER OR RING_LVL_0 OR SEG_PRESENT OR DTYPE_CODE_OR_DATA) :: u8) = 0x9A"
  "(ucast (DPB_DATA_RW OR RING_LVL_0 OR SEG_PRESENT OR DTYPE_CODE_OR_DATA) :: u8) = 0x92"
  "(ucast (DPB_CODE_ER OR RING_LVL_3 OR SEG_PRESENT OR DTYPE_CODE_OR_DATA) :: u8) = 0xFA"
  "(ucast (DPB_DATA_RW OR RING_LVL_3 OR SEG_PRESENT OR DTYPE_CODE_OR_DATA) :: u8) = 0xF2"
  by (simp_all add: DPB_DATA_RO_def RING_LVL_0_def SEG_NOT_PRESENT_def DTYPE_SYSTEM_def DPB_CODE_ER_def SEG_PRESENT_def
      DTYPE_CODE_OR_DATA_def DPB_DATA_RW_def RING_LVL_3_def)

lemma update_six:
  "length t = 6 \<Longrightarrow> t[0 := a, Suc 0 := b, 2 := c, 3 := d, 4 := e, 5 := f] = [a, b, c, d, e, f]"
  by (auto simp: length_Suc_conv numeral_eq_Suc)

lemma init_flat_gdt_spec:
  assumes "length (g_gdt s) = 6"
  obtains s' where "init_flat_gdt gdt_addr tss_addr esp s = Some s'"
    "printed (s\<lparr>g_gdt := flat_gdt tss_addr, g_tss := kernel_tss esp 0x10, gdt_register := Some (47, gdt_addr),
       seg_regs := (0x08, 0x10), task_register := 0x2B\<rparr>) s'"
proof -
  have vals: "SEGMENT_BASE = 0" "SEGMENT_LIMIT = 0xFFFFFFFF" "GRANULARITY_ENABLE = 1" "GRANULARITY_DISABLE = 0"
    by (simp_all add: SEGMENT_BASE_def SEGMENT_LIMIT_def GRANULARITY_ENABLE_def GRANULARITY_DISABLE_def)
  have idx: "0 \<le> i" "i < GDT_SIZE" if "0 \<le> i" "i \<le> 5" for i using that by (auto simp: GDT_SIZE_def)
  obtain s0 where s0: "set_gdt_entry 0 0 0 0 0 s = Some (0, s0)" "printed (s\<lparr>g_gdt := (g_gdt s)[nat 0 := descriptor 0 0 0 0]\<rparr>) s0"
    by (rule set_gdt_entry_spec [OF idx(1) idx(2), of 0]) simp_all
  obtain s1 where s1: "set_gdt_entry 1 0 0xFFFFFFFF 0x9A 1 s0 = Some (0, s1)"
    "printed (s0\<lparr>g_gdt := (g_gdt s0)[nat 1 := descriptor 0 0xFFFFFFFF 0x9A 1]\<rparr>) s1"
    by (rule set_gdt_entry_spec [OF idx(1) idx(2), of 1]) simp_all
  obtain s2 where s2: "set_gdt_entry 2 0 0xFFFFFFFF 0x92 1 s1 = Some (0, s2)"
    "printed (s1\<lparr>g_gdt := (g_gdt s1)[nat 2 := descriptor 0 0xFFFFFFFF 0x92 1]\<rparr>) s2"
    by (rule set_gdt_entry_spec [OF idx(1) idx(2), of 2]) simp_all
  obtain s3 where s3: "set_gdt_entry 3 0 0xFFFFFFFF 0xFA 1 s2 = Some (0, s3)"
    "printed (s2\<lparr>g_gdt := (g_gdt s2)[nat 3 := descriptor 0 0xFFFFFFFF 0xFA 1]\<rparr>) s3"
    by (rule set_gdt_entry_spec [OF idx(1) idx(2), of 3]) simp_all
  obtain s4 where s4: "set_gdt_entry 4 0 0xFFFFFFFF 0xF2 1 s3 = Some (0, s4)"
    "printed (s3\<lparr>g_gdt := (g_gdt s3)[nat 4 := descriptor 0 0xFFFFFFFF 0xF2 1]\<rparr>) s4"
    by (rule set_gdt_entry_spec [OF idx(1) idx(2), of 4]) simp_all
  obtain s5 where s5: "set_tss_entry tss_addr 5 0x10 esp s4 = Some (0, s5)"
    "printed (s4\<lparr>g_gdt := (g_gdt s4)[nat 5 := descriptor tss_addr (tss_addr + SIZEOF_TSS_ENTRY) 0xe9 0], g_tss := kernel_tss esp 0x10\<rparr>) s5"
    by (rule set_tss_entry_spec [OF idx(1) idx(2), of 5]) simp_all
  have run: "init_flat_gdt gdt_addr tss_addr esp s = Some (flush_gdt_and_tss gdt_addr s5)"
    unfolding init_flat_gdt_def Let_def access_values vals by (simp add: s0(1) s1(1) s2(1) s3(1) s4(1) s5(1))
  have "printed (s\<lparr>g_gdt := flat_gdt tss_addr, g_tss := kernel_tss esp 0x10\<rparr>) s5"
    using s0(2) s1(2) s2(2) s3(2) s4(2) s5(2) assms unfolding printed_def by (clarsimp simp: flat_gdt_def update_six) blast
  then obtain t d where s5: "s5 = s\<lparr>g_gdt := flat_gdt tss_addr, g_tss := kernel_tss esp 0x10, trace := t, disp_bytes := d\<rparr>"
    by (auto simp: printed_def)
  have lim: "(ucast (SIZEOF_GDT_ENTRY * of_int GDT_SIZE - 1) :: u16) = 47" by (simp add: SIZEOF_GDT_ENTRY_def GDT_SIZE_def)
  show ?thesis
    by (rule that [OF run]) (unfold printed_def, intro exI [of _ t] exI [of _ d],
      simp only: flush_gdt_and_tss_def gdt_flush_def tss_flush_def Let_def lim s5, simp)
qed



end
