(* ===== verification/Vga.thy ===== *)
theory Vga
  imports PortIO
begin

text \<open>
  The text screen (\<^verbatim>\<open>src/vga.c\<close>, \<^verbatim>\<open>inc/vga.h\<close>): two bytes of video memory for each
  of the 25 times 80 cells, the character and its colour. A string that runs past the end of
  a row goes on in the next one, and past the last row into the memory behind the screen, as
  nothing bounds the row or the column. The lemmas say which bytes each operation changes.
\<close>

definition VIDEO_MEM_START_OFFSET :: u32 where "VIDEO_MEM_START_OFFSET = 0xb8000 + 0xc0000000"
definition MAX_ROWS_COUNT :: int where "MAX_ROWS_COUNT = 25"
definition MAX_COLS_COUNT :: int where "MAX_COLS_COUNT = 80"

subsection \<open>Operations\<close>

text \<open>The colour is an \<open>unsigned short\<close>, of which the byte store keeps the low half.\<close>

definition print_char_on_screen :: "u32 \<Rightarrow> u32 \<Rightarrow> char \<Rightarrow> u16 \<Rightarrow> 'a machine_scheme \<Rightarrow> 'a machine_scheme" where
  "print_char_on_screen row col c color s =
     (let video_mem = VIDEO_MEM_START_OFFSET;
          s = s\<lparr>mem := (mem s)(video_mem + (row * 80 + col) * 2 := of_char c)\<rparr>
      in s\<lparr>mem := (mem s)(video_mem + ((row * 80 + col) * 2 + 1) := ucast color)\<rparr>)"

fun printk_on_screen_loop :: "u32 \<Rightarrow> u32 \<Rightarrow> string \<Rightarrow> int \<Rightarrow> 'a machine_scheme \<Rightarrow> 'a machine_scheme" where
  "printk_on_screen_loop row col [] i s = s"
| "printk_on_screen_loop row col (c # cs) i s =
     (if c \<noteq> CHR 0x00
      then printk_on_screen_loop row col cs (i + 1) (print_char_on_screen row (col + of_int i) c 0x14 s)
      else s)"

definition printk_on_screen :: "u32 \<Rightarrow> u32 \<Rightarrow> string \<Rightarrow> 'a machine_scheme \<Rightarrow> 'a machine_scheme" where
  "printk_on_screen row col str s = printk_on_screen_loop row col str 0 s"

function clear_row_loop :: "int \<Rightarrow> int \<Rightarrow> 'a machine_scheme \<Rightarrow> 'a machine_scheme" where
  "clear_row_loop row col s =
     (if col < MAX_COLS_COUNT
      then clear_row_loop row (col + 1) (print_char_on_screen (of_int row) (of_int col) (CHR '' '') 0x0 s)
      else s)"
  by pat_completeness auto
termination
  by (relation "measure (\<lambda>(_, col, _). nat (MAX_COLS_COUNT - col))") auto

declare clear_row_loop.simps [simp del]

function clear_screen_loop :: "int \<Rightarrow> 'a machine_scheme \<Rightarrow> 'a machine_scheme" where
  "clear_screen_loop row s =
     (if row < MAX_ROWS_COUNT then clear_screen_loop (row + 1) (clear_row_loop row 0 s) else s)"
  by pat_completeness auto
termination
  by (relation "measure (\<lambda>(row, _). nat (MAX_ROWS_COUNT - row))") auto

declare clear_screen_loop.simps [simp del]

definition clear_screen :: "'a machine_scheme \<Rightarrow> 'a machine_scheme" where
  "clear_screen s = clear_screen_loop 0 s"

subsection \<open>Cells\<close>

text \<open>The cell with number \<open>k\<close>, counted along the rows, and what it shows.\<close>

definition cell :: "nat \<Rightarrow> nat" where
  "cell k = 0xC00B8000 + 2 * k"

definition set_cell :: "nat \<Rightarrow> u8 \<times> u8 \<Rightarrow> 'a machine_scheme \<Rightarrow> 'a machine_scheme" where
  "set_cell k v s = s\<lparr>mem := (mem s)(of_nat (cell k) := fst v, of_nat (cell k + 1) := snd v)\<rparr>"

lemma print_char_cell:
  assumes "row * 80 + col + of_nat d = of_nat k"
  shows "print_char_on_screen row (col + of_nat d) c color s = set_cell k (of_char c, ucast color) s"
proof -
  have k: "row * 80 + (col + of_nat d) = of_nat k" using assms by (simp add: add_ac)
  have eqs: "VIDEO_MEM_START_OFFSET + of_nat k * 2 = of_nat (cell k)" "VIDEO_MEM_START_OFFSET + (of_nat k * 2 + 1) = of_nat (cell k + 1)"
    by (simp_all add: VIDEO_MEM_START_OFFSET_def cell_def algebra_simps)
  show ?thesis unfolding print_char_on_screen_def Let_def k set_cell_def eqs by simp
qed

fun set_cells :: "nat \<Rightarrow> (u8 \<times> u8) list \<Rightarrow> 'a machine_scheme \<Rightarrow> 'a machine_scheme" where
  "set_cells k [] s = s"
| "set_cells k (v # vs) s = set_cells (k + 1) vs (set_cell k v s)"

lemma set_cells_append: "set_cells k (vs @ ws) s = set_cells (k + length vs) ws (set_cells k vs s)"
  by (induction vs arbitrary: k s) auto

text \<open>The byte at an address after a series of cells was written.\<close>

lemma set_cells_byte:
  assumes "cell (k + length vs) \<le> 0x100000000" and "y < 0x100000000"
  shows "mem (set_cells k vs s) (of_nat y) =
    (if cell k \<le> y \<and> y < cell (k + length vs)
     then (if even (y - cell k) then fst (vs ! ((y - cell k) div 2)) else snd (vs ! ((y - cell k) div 2)))
     else mem s (of_nat y))"
  using assms
proof (induction vs arbitrary: k s)
  case (Cons v vs)
  have bound: "cell (Suc k + length vs) \<le> 0x100000000" using Cons.prems by simp
  have ck: "cell k + 1 < 4294967296" "cell (Suc k) = cell k + 2" using Cons.prems by (simp_all add: cell_def)
  have one: "mem (set_cell k v s) (of_nat y) = (if y = cell k then fst v else if y = cell k + 1 then snd v else mem s (of_nat y))"
  proof -
    have "(of_nat y = (of_nat (cell k) :: u32)) = (y = cell k)" "(of_nat y = (of_nat (cell k + 1) :: u32)) = (y = cell k + 1)"
      using of_nat_eq_32 [of y "cell k"] of_nat_eq_32 [of y "cell k + 1"] Cons.prems(2) ck(1) by (simp_all del: of_nat_add)
    then show ?thesis by (simp add: set_cell_def del: of_nat_add)
  qed
  have idx: "(v # vs) ! ((y - cell k) div 2) = vs ! ((y - cell (Suc k)) div 2)" "even (y - cell k) = even (y - cell (Suc k))"
    if "cell (Suc k) \<le> y"
  proof -
    have z: "y - cell k = Suc (Suc (y - cell (Suc k)))" using that ck(2) by simp
    show "(v # vs) ! ((y - cell k) div 2) = vs ! ((y - cell (Suc k)) div 2)" "even (y - cell k) = even (y - cell (Suc k))"
      unfolding z by simp_all
  qed
  note ih = Cons.IH [OF bound Cons.prems(2), of "set_cell k v s"]
  have mono: "cell (Suc k) \<le> cell (Suc k + length vs)" by (simp add: cell_def)
  consider "y < cell k" | "y = cell k" | "y = cell k + 1" | "cell (Suc k) \<le> y" using ck by linarith
  then show ?case
  proof cases
    case 4
    then show ?thesis using ih one idx ck by simp
  qed (use ih one ck mono in simp_all)
qed auto

lemma set_cells_other [simp]: "trace (set_cells k vs s) = trace s"
  by (induction vs arbitrary: k s) (simp_all add: set_cell_def)

subsection \<open>What the operations show\<close>

lemma printk_on_screen_loop_cells:
  "row * 80 + col + of_nat i = of_nat k \<Longrightarrow> printk_on_screen_loop row col cs (int i) s =
   set_cells k (map (\<lambda>c. (of_char c, 0x14)) (takeWhile (\<lambda>c. c \<noteq> CHR 0x00) cs)) s"
proof (induction cs arbitrary: i k s)
  case (Cons c cs)
  have "row * 80 + col + of_nat (i + 1) = of_nat (k + 1)" using Cons.prems by (simp add: algebra_simps)
  from Cons.IH [OF this] show ?case
    using print_char_cell [OF Cons.prems, of c "0x14" s] by (simp add: add.commute [of 1])
qed simp

lemma printk_on_screen_cells:
  "printk_on_screen row col str s =
   set_cells (unat (row * 80 + col)) (map (\<lambda>c. (of_char c, 0x14)) (takeWhile (\<lambda>c. c \<noteq> CHR 0x00) str)) s"
  using printk_on_screen_loop_cells [of row col 0 "unat (row * 80 + col)" str s] by (simp add: printk_on_screen_def)

lemma clear_row_loop_cells:
  "n \<le> 80 \<Longrightarrow> clear_row_loop (int r) (int (80 - n)) s = set_cells (80 * r + (80 - n)) (replicate n (32, 0)) s"
proof (induction n arbitrary: s)
  case 0
  then show ?case by (subst clear_row_loop.simps) (simp add: MAX_COLS_COUNT_def)
next
  case (Suc n)
  have "print_char_on_screen (of_int (int r)) (of_int (int (80 - Suc n))) (CHR '' '') 0 s = set_cell (80 * r + (80 - Suc n)) (32, 0) s"
    using print_char_cell [of "of_nat r" 0 "80 - Suc n" "80 * r + (80 - Suc n)" "CHR '' ''" 0 s] by simp
  moreover have "int (80 - Suc n) + 1 = int (80 - n)" "80 * r + (80 - Suc n) + 1 = 80 * r + (80 - n)" using Suc.prems by auto
  moreover have "int (80 - Suc n) < MAX_COLS_COUNT" using Suc.prems by (simp add: MAX_COLS_COUNT_def)
  ultimately show ?case using Suc.IH Suc.prems by (subst clear_row_loop.simps) simp
qed

lemma clear_screen_loop_cells:
  "n \<le> 25 \<Longrightarrow> clear_screen_loop (int (25 - n)) s = set_cells (80 * (25 - n)) (replicate (80 * n) (32, 0)) s"
proof (induction n arbitrary: s)
  case 0
  then show ?case by (subst clear_screen_loop.simps) (simp add: MAX_ROWS_COUNT_def)
next
  case (Suc n)
  let ?r = "25 - Suc n"
  have row: "clear_row_loop (int ?r) 0 s = set_cells (80 * ?r) (replicate 80 (32, 0)) s"
    using clear_row_loop_cells [of 80 ?r s] by simp
  have nxt: "int ?r + 1 = int (25 - n)" "80 * ?r + 80 = 80 * (25 - n)" using Suc.prems by auto
  have "int ?r < MAX_ROWS_COUNT" by (simp add: MAX_ROWS_COUNT_def)
  then have "clear_screen_loop (int ?r) s = clear_screen_loop (int (25 - n)) (clear_row_loop (int ?r) 0 s)"
    by (subst clear_screen_loop.simps) (simp only: if_True nxt(1))
  also have "\<dots> = set_cells (80 * (25 - n)) (replicate (80 * n) (32, 0)) (set_cells (80 * ?r) (replicate 80 (32, 0)) s)"
    using Suc.IH [of "set_cells (80 * ?r) (replicate 80 (32, 0)) s"] Suc.prems row by simp
  also have "\<dots> = set_cells (80 * ?r) (replicate 80 (32, 0) @ replicate (80 * n) (32, 0)) s"
    unfolding set_cells_append using nxt(2) by simp
  also have "replicate 80 (32, 0) @ replicate (80 * n) (32, 0) = replicate (80 * Suc n) (32, 0 :: u8)"
    by (simp only: replicate_add [symmetric] mult_Suc_right)
  finally show ?case .
qed

text \<open>C35. \<open>clear_screen\<close> stores a blank of colour 0 in each of the 25 times 80 cells of the screen, that is, in
  the 4000 bytes from \<open>0xC00B8000\<close> on, and changes no other byte of memory.\<close>

theorem clear_screen_blanks:
  assumes "y < 0x100000000"
  shows "mem (clear_screen s) (of_nat y) =
    (if 0xC00B8000 \<le> y \<and> y < 0xC00B8000 + 4000 then if even y then 32 else 0 else mem s (of_nat y))"
proof -
  have all: "clear_screen s = set_cells 0 (replicate 2000 (32, 0)) s"
    using clear_screen_loop_cells [of 25 s] by (simp add: clear_screen_def)
  have nth: "replicate 2000 (32 :: u8, 0 :: u8) ! ((y - cell 0) div 2) = (32, 0)" if "y < cell 2000"
    using that by (intro nth_replicate) (simp add: cell_def)
  have par: "even (y - cell 0) = even y" if "cell 0 \<le> y" using even_diff_nat [of y "cell 0"] that by (simp add: cell_def)
  have ends: "cell 0 = 0xC00B8000" "cell 2000 = 0xC00B8000 + 4000" by (simp_all add: cell_def)
  have "mem (clear_screen s) (of_nat y) = (if cell 0 \<le> y \<and> y < cell 2000 then if even y then 32 else 0 else mem s (of_nat y))"
    using set_cells_byte [of 0 "replicate 2000 (32, 0)" y s] assms nth par unfolding all by (simp add: ends(2))
  then show ?thesis unfolding ends .
qed

theorem clear_screen_blanks_witness:
  "mem (clear_screen \<lparr>trace = [], mem = (\<lambda>_. 7)\<rparr>) (of_nat 0xC00B8F9F) = 0 \<and>
   mem (clear_screen \<lparr>trace = [], mem = (\<lambda>_. 7)\<rparr>) (of_nat 0xC00B8FA0) = 7"
  using clear_screen_blanks [of "0xC00B8F9F" "\<lparr>trace = [], mem = (\<lambda>_. 7)\<rparr>"]
    clear_screen_blanks [of "0xC00B8FA0" "\<lparr>trace = [], mem = (\<lambda>_. 7)\<rparr>"] by simp

end
