(* ===== verification/Pic.thy ===== *)
theory Pic
  imports PortIO
begin

text \<open>
  The two cascaded 8259 interrupt controllers (\<^verbatim>\<open>src/irq.c\<close>, \<^verbatim>\<open>inc/irq.h\<close>):
  initialisation, masking and unmasking of a line, end of interrupt. The lemmas give the
  exact port traffic of each operation and, for a controller whose data port reads back
  the mask last written to it, the effect on the mask of every line.
\<close>

definition PIC1_COMMAND :: u16 where "PIC1_COMMAND = 0x20"
definition PIC1_DATA :: u16 where "PIC1_DATA = 0x21"
definition PIC2_COMMAND :: u16 where "PIC2_COMMAND = 0xA0"
definition PIC2_DATA :: u16 where "PIC2_DATA = 0xA1"
definition PICS_BASE :: u8 where "PICS_BASE = 0x20"
definition PIC1_OFFSET :: u32 where "PIC1_OFFSET = 0x0"
definition PIC2_OFFSET :: u32 where "PIC2_OFFSET = 0x8"
definition ICW1_ICW4 :: u8 where "ICW1_ICW4 = 0x01"
definition ICW1_INIT :: u8 where "ICW1_INIT = 0x10"
definition ICW4_8086 :: u8 where "ICW4_8086 = 0x01"
definition PIC_EOI :: u8 where "PIC_EOI = 0x20"

lemmas pic_ports = PIC1_COMMAND_def PIC1_DATA_def PIC2_COMMAND_def PIC2_DATA_def

definition irq_init :: "device \<Rightarrow> u8 \<Rightarrow> 'a machine_scheme \<Rightarrow> 'a machine_scheme" where
  "irq_init dev base s0 =
     (let offset1 = ucast base + PIC1_OFFSET;
          offset2 = ucast base + PIC2_OFFSET;
          (a1, s) = inb dev PIC1_DATA s0;
          (a2, s) = inb dev PIC2_DATA s;
          s = io_wait (outb PIC1_COMMAND (ICW1_INIT OR ICW1_ICW4) s);
          s = io_wait (outb PIC2_COMMAND (ICW1_INIT OR ICW1_ICW4) s);
          s = io_wait (outb PIC1_DATA (ucast offset1) s);
          s = io_wait (outb PIC2_DATA (ucast offset2) s);
          s = io_wait (outb PIC1_DATA 0x04 s);
          s = io_wait (outb PIC2_DATA 0x02 s);
          s = io_wait (outb PIC1_DATA ICW4_8086 s);
          s = io_wait (outb PIC2_DATA ICW4_8086 s);
          s = outb PIC1_DATA a1 s
      in outb PIC2_DATA a2 s)"

text \<open>
  \<open>1 << irq\<close> is defined in C for shift counts 0 to 30 (bit 31 is the sign bit of
  \<open>int\<close>); outside that range the operations have no defined result.
\<close>

definition shift_one :: "int \<Rightarrow> u32 option" where
  "shift_one n = (if 0 \<le> n \<and> n < 31 then Some (push_bit (nat n) 1) else None)"

definition irq_mask :: "device \<Rightarrow> int \<Rightarrow> 'a machine_scheme \<Rightarrow> 'a machine_scheme option" where
  "irq_mask dev irq0 s =
     (let (port, irq) = (if irq0 < 8 then (PIC1_DATA, irq0) else (PIC2_DATA, irq0 - 8));
          (v, s1) = inb dev port s
      in do { b \<leftarrow> shift_one irq; Some (outb port (ucast (ucast v OR b)) s1) })"

definition irq_unmask :: "device \<Rightarrow> int \<Rightarrow> 'a machine_scheme \<Rightarrow> 'a machine_scheme option" where
  "irq_unmask dev irq0 s =
     (if irq0 \<ge> 16 then Some s
      else
        let (port, irq) = (if irq0 < 8 then (PIC1_DATA, irq0) else (PIC2_DATA, irq0 - 8));
            (v, s1) = inb dev port s
        in do { b \<leftarrow> shift_one irq; Some (outb port (ucast (ucast v AND NOT b)) s1) })"

definition irq_send_eoi :: "u8 \<Rightarrow> 'a machine_scheme \<Rightarrow> 'a machine_scheme" where
  "irq_send_eoi irq s =
     (let s1 = (if irq \<ge> 8 then outb PIC2_COMMAND PIC_EOI s else s)
      in outb PIC1_COMMAND PIC_EOI s1)"

subsection \<open>Port traffic\<close>

lemma ucast_add_8: "ucast (ucast (b :: u8) + 8 :: u32) = b + 8"
proof -
  have "uint b mod 4294967296 = uint b" using uint_lt2p [of b] by simp
  then show ?thesis
    by (simp add: word_uint_eq_iff uint_word_ariths unsigned_ucast_eq take_bit_eq_mod mod_mod_cancel)
qed

lemma shift_one_eq_Some [simp]:
  "shift_one n = Some b \<longleftrightarrow> 0 \<le> n \<and> n < 31 \<and> b = push_bit (nat n) 1"
  by (auto simp: shift_one_def)

text \<open>Initialisation sends the 8086 cascade sequence: each controller receives ICW1 on its
  command port, then its vector base (\<open>base\<close> and \<open>base + 8\<close>), its cascade wiring, ICW4
  and finally the mask it had at entry; nothing else is written, and memory is untouched.\<close>

lemma irq_init_traffic:
  "\<exists>t. trace (irq_init dev base s) = trace s @ t \<and>
     outs_to PIC1_COMMAND t = [0x11] \<and> outs_to PIC2_COMMAND t = [0x11] \<and>
     outs_to PIC1_DATA t = [base, 0x04, 0x01, dev (trace s) PIC1_DATA] \<and>
     outs_to PIC2_DATA t =
       [base + 8, 0x02, 0x01, dev (trace s @ [In PIC1_DATA (dev (trace s) PIC1_DATA)]) PIC2_DATA] \<and>
     mem (irq_init dev base s) = mem s"
  by (auto simp: irq_init_def inb_def io_wait_def outb_def Let_def pic_ports ICW1_INIT_def
      ICW1_ICW4_def ICW4_8086_def PIC1_OFFSET_def PIC2_OFFSET_def ucast_add_8)

text \<open>
  The mask of a line, read off the trace: bit \<open>irq\<close> of the byte last written to the
  controller's data port (\<open>m1\<close>, \<open>m2\<close>: the masks before any access).
\<close>

definition line_masked :: "u8 \<Rightarrow> u8 \<Rightarrow> io_event list \<Rightarrow> int \<Rightarrow> bool" where
  "line_masked m1 m2 t irq \<longleftrightarrow>
     (if irq < 8 then bit (last_out m1 PIC1_DATA t) (nat irq)
      else bit (last_out m2 PIC2_DATA t) (nat (irq - 8)))"

text \<open>
  The documented behaviour of the 8259 the code relies on: reading a data port gives the
  mask register, that is, the byte last written there.
\<close>

definition mask_readback :: "u8 \<Rightarrow> u8 \<Rightarrow> device \<Rightarrow> bool" where
  "mask_readback m1 m2 dev \<longleftrightarrow>
     (\<forall>t. dev t PIC1_DATA = last_out m1 PIC1_DATA t \<and> dev t PIC2_DATA = last_out m2 PIC2_DATA t)"

text \<open>A change of the masks by one command, and traffic that does not go to the data ports.\<close>

lemma irq_unmask_mask:
  assumes "mask_readback m1 m2 dev" and "0 \<le> irq" and "irq < 16" and "irq_unmask dev irq s = Some s'"
    and "0 \<le> j" and "j < 16"
  shows "line_masked m1 m2 (trace s') j \<longleftrightarrow> j \<noteq> irq \<and> line_masked m1 m2 (trace s) j"
  using assms
  by (auto simp: irq_unmask_def mask_readback_def inb_def Let_def line_masked_def pic_ports
      bit_simps nat_eq_iff2 shift_one_def split: if_splits)

lemma irq_mask_mask:
  assumes "mask_readback m1 m2 dev" and "0 \<le> irq" and "irq < 16" and "irq_mask dev irq s = Some s'"
    and "0 \<le> j" and "j < 16"
  shows "line_masked m1 m2 (trace s') j \<longleftrightarrow> j = irq \<or> line_masked m1 m2 (trace s) j"
  using assms
  by (auto simp: irq_mask_def mask_readback_def inb_def Let_def line_masked_def pic_ports
      bit_simps nat_eq_iff2 shift_one_def split: if_splits)

lemma line_masked_append:
  assumes "outs_to PIC1_DATA t = []" and "outs_to PIC2_DATA t = []"
  shows "line_masked m1 m2 (t0 @ t) j = line_masked m1 m2 t0 j"
  using assms by (simp add: line_masked_def last_out_def)

text \<open>C39. Unmasking line \<open>irq\<close> of 0 to 15 clears that line's mask bit and no other, and masking it sets that bit and
  no other, for controllers whose data port reads back the mask last written to it.\<close>

theorem irq_lines:
  assumes "mask_readback m1 m2 dev" and "0 \<le> irq" and "irq < 16"
  shows "\<exists>u v. irq_unmask dev irq s = Some u \<and> irq_mask dev irq s = Some v \<and>
    (\<forall>j. 0 \<le> j \<and> j < 16 \<longrightarrow>
       (line_masked m1 m2 (trace u) j \<longleftrightarrow> j \<noteq> irq \<and> line_masked m1 m2 (trace s) j) \<and>
       (line_masked m1 m2 (trace v) j \<longleftrightarrow> j = irq \<or> line_masked m1 m2 (trace s) j))"
proof -
  have "irq_unmask dev irq s \<noteq> None" "irq_mask dev irq s \<noteq> None"
    using assms(2,3) by (auto simp: irq_unmask_def irq_mask_def inb_def Let_def shift_one_def)
  then obtain u v where "irq_unmask dev irq s = Some u" "irq_mask dev irq s = Some v" by blast
  with irq_unmask_mask [OF assms] irq_mask_mask [OF assms] show ?thesis by blast
qed

theorem irq_lines_witness:
  "\<exists>u v. irq_unmask (\<lambda>t p. last_out 0xFF p t) 4 \<lparr>trace = [], mem = (\<lambda>_. 0)\<rparr> = Some u \<and>
    \<not> line_masked 0xFF 0xFF (trace u) 4 \<and> irq_mask (\<lambda>t p. last_out 0xFF p t) 4 \<lparr>trace = [], mem = (\<lambda>_. 0)\<rparr> = Some v \<and>
    line_masked 0xFF 0xFF (trace v) 4"
proof -
  have "mask_readback 0xFF 0xFF (\<lambda>t p. last_out 0xFF p t)" by (simp add: mask_readback_def)
  from irq_lines [OF this, of 4 "\<lparr>trace = [], mem = (\<lambda>_. 0)\<rparr>"] show ?thesis by fastforce
qed

text \<open>
  The end-of-interrupt command goes to the master for every line and also to the slave
  for the lines 8 to 15.
\<close>

lemma irq_send_eoi_trace:
  "trace (irq_send_eoi irq s) =
     trace s @ (if irq \<ge> 8 then [Out PIC2_COMMAND PIC_EOI] else []) @ [Out PIC1_COMMAND PIC_EOI]"
  by (simp add: irq_send_eoi_def Let_def)

lemma irq_send_eoi_eq:
  "irq_send_eoi irq s = s\<lparr>trace := trace s @
     (if irq \<ge> 8 then [Out PIC2_COMMAND PIC_EOI] else []) @ [Out PIC1_COMMAND PIC_EOI]\<rparr>"
  by (simp add: irq_send_eoi_def outb_def Let_def)

end
