(* ===== verification/Drivers.thy ===== *)
theory Drivers
  imports Segmentation Vga Pic
begin

text \<open>
  The drivers and the interrupt dispatcher: \<open>printk\<close> of \<^verbatim>\<open>src/main.c\<close>, the set-up and the
  handler of the UART (\<^verbatim>\<open>src/uart.c\<close>), the timer (\<^verbatim>\<open>src/pit.c\<close>), the keyboard (\<^verbatim>\<open>src/kb.c\<close>),
  the register dumps (\<^verbatim>\<open>src/tools/registers.c\<close>), \<open>page_fault_handler\<close> (\<^verbatim>\<open>src/pages.c\<close>) and
  \<open>irq_handler\<close> (\<^verbatim>\<open>src/interrupts.c\<close>).

  A handler that runs into \<open>while (1);\<close> stops the kernel: the outcome is \<open>Halted\<close> with the state
  in which it spins. What a device answers is the parameter \<open>dev\<close>.
\<close>

record kernel = segs +
  ticks :: u32
  send_char :: u8
  cr2 :: u32
  cr3 :: u32
  cr4 :: u32
  kfs_magic_number :: u32
  kfs_multiboot_info :: u32

datatype 's outcome = Returned 's | Halted 's

text \<open>The registers that the entry code saves on the stack (\<open>struct regs\<close>).\<close>

record regs =
  edi :: u32
  esi :: u32
  ebp :: u32
  esp :: u32
  ebx :: u32
  edx :: u32
  ecx :: u32
  eax :: u32
  ss :: u32
  gs :: u32
  fs :: u32
  es :: u32
  ds :: u32
  int_no :: u32
  err_code :: u32
  eip :: u32
  cs :: u16
  eflags :: u32
  useresp :: u32
  user_ss :: u32

subsection \<open>printk (src/main.c)\<close>

definition do_printk :: "u32 \<Rightarrow> u32 \<Rightarrow> string \<Rightarrow> 'a uart_scheme \<Rightarrow> 'a uart_scheme" where
  "do_printk row col str s = uart_putstr (Some str) (printk_on_screen row col str s)"

definition printk :: "string \<Rightarrow> 'a uart_scheme \<Rightarrow> 'a uart_scheme" where
  "printk str s = do_printk 0 0 str s"

subsection \<open>UART (src/uart.c)\<close>

definition uart_handler :: "device \<Rightarrow> 'a uart_scheme \<Rightarrow> 'a uart_scheme" where
  "uart_handler dev s =
     (let s = printk ''UART : '' s;
          (c, s) = uart_recv dev s;
          s = uart_putchar c s
      in uart_putchar (of_char (CHR 0x0A)) s)"

definition uart_init :: "device \<Rightarrow> u16 \<Rightarrow> 'a irqs_scheme \<Rightarrow> 'a irqs_scheme option" where
  "uart_init dev addr s =
     (if addr \<noteq> SERIAL_PORT then Some (printk ''ERR_UART_BADADDR'' s)
      else if addr = uart_addr s then Some (printk ''ERR_UART_ALREADYINIT'' s)
      else
        let s = s\<lparr>uart_addr := addr\<rparr>;
            s = outb (uart_addr s + 1) 0x01 s;
            s = outb (uart_addr s + 2) 0x00 s;
            s = outb (uart_addr s + 3) 0x80 s;
            s = outb (uart_addr s + 0) 0x03 s;
            s = outb (uart_addr s + 1) 0x00 s;
            s = outb (uart_addr s + 3) 0x03 s;
            s = outb (uart_addr s + 4) 0x0B s
        in do {
          s \<leftarrow> irq_unmask dev 4 s;
          register_irq_handler 36 Uart_handler s
        })"

subsection \<open>Timer (src/pit.c)\<close>

definition COUNTER_0 :: u16 where "COUNTER_0 = 0x40"
definition COUNTER_REG :: u16 where "COUNTER_REG = 0x43"
definition SC_0 :: u8 where "SC_0 = 0x00"
definition MODE_2 :: u8 where "MODE_2 = 0x40"
definition FREQUENCY :: int where "FREQUENCY = 1193182"

definition pit_handler :: "'a kernel_scheme \<Rightarrow> 'a kernel_scheme" where
  "pit_handler s = s\<lparr>ticks := ticks s + 1\<rparr>"

definition pit_init :: "device \<Rightarrow> int \<Rightarrow> 'a irqs_scheme \<Rightarrow> 'a irqs_scheme option" where
  "pit_init dev freq s =
     (if freq = 0 then None
      else
        let divisor = of_int (c_div FREQUENCY freq) :: u32
        in do {
          s \<leftarrow> irq_unmask dev 0 s;
          let s = outb COUNTER_REG (SC_0 OR MODE_2) s;
          let s = outb COUNTER_0 (ucast (divisor AND 0x00ff)) s;
          let s = outb COUNTER_0 (ucast (drop_bit 8 divisor AND 0x00ff)) s;
          register_irq_handler 32 Pit_handler s
        })"

definition pit_get_ticks :: "'a kernel_scheme \<Rightarrow> u32" where
  "pit_get_ticks s = ticks s"

subsection \<open>Keyboard (src/kb.c)\<close>

definition KEYBOARD_US :: string where
  "KEYBOARD_US =
     [CHR 0x00, CHR 0x1B] @ ''1234567890-='' @ [CHR 0x08, CHR 0x09] @ ''qwertyuiop[]'' @ [CHR 0x0A, CHR 0x00] @
     ''asdfghjkl;'' @ [CHR 0x27, CHR 0x60, CHR 0x00, CHR 0x5C] @ ''zxcvbnm,./'' @
     [CHR 0x00, CHR ''*'', CHR 0x00, CHR '' '', CHR 0x00, CHR 0x00] @ replicate 8 (CHR 0x00) @ [CHR 0x00] @
     replicate 5 (CHR 0x00) @ [CHR ''-'', CHR 0x00, CHR 0x00, CHR 0x00, CHR ''+''] @
     replicate 11 (CHR 0x00) @ replicate 38 (CHR 0x00)"

definition IO_BUFFER :: u16 where "IO_BUFFER = 0x60"

definition kb_init :: "device \<Rightarrow> 'a irqs_scheme \<Rightarrow> 'a irqs_scheme option" where
  "kb_init dev s = do {
     s \<leftarrow> irq_unmask dev 1 s;
     register_irq_handler 33 Keyboard_handler s
   }"

text \<open>\<open>char\<close> is signed: a scan code of 0x80 or more, the release of a key, is not positive.\<close>

definition kb_get_key :: "device \<Rightarrow> 'a kernel_scheme \<Rightarrow> int \<times> 'a kernel_scheme" where
  "kb_get_key dev s =
     (let (c, s) = inb dev IO_BUFFER s
      in if send_char s \<noteq> c
         then
           let s = s\<lparr>send_char := c\<rparr>
           in if sint (send_char s) > 0 then (sint (send_char s), s) else (0, s)
         else (0, s))"

text \<open>An index outside the table has no defined result.\<close>

definition getchar :: "device \<Rightarrow> 'a kernel_scheme \<Rightarrow> (char \<times> 'a kernel_scheme) option" where
  "getchar dev s =
     (let (key, s) = kb_get_key dev s
      in if 0 \<le> key \<and> key < int (length KEYBOARD_US) then Some (KEYBOARD_US ! nat key, s) else None)"

definition keyboard_handler :: "device \<Rightarrow> 'a kernel_scheme \<Rightarrow> 'a kernel_scheme option" where
  "keyboard_handler dev s = do {
     (c, s) \<leftarrow> getchar dev s;
     Some (uart_putchar (of_char c) s)
   }"

subsection \<open>Control registers (src/tools/registers.c)\<close>

definition print_cr0 :: "'a kernel_scheme \<Rightarrow> 'a kernel_scheme option" where
  "print_cr0 s = map_option snd (kprintf (''cr0 => %p'' @ [CHR 0x0A]) [VInt (cr0 s)] s)"

definition print_cr2 :: "'a kernel_scheme \<Rightarrow> (u32 \<times> 'a kernel_scheme) option" where
  "print_cr2 s = do {
     (_, s') \<leftarrow> kprintf (''cr2 => %p'' @ [CHR 0x0A]) [VInt (cr2 s)] s;
     Some (cr2 s, s')
   }"

definition print_cr3 :: "'a kernel_scheme \<Rightarrow> 'a kernel_scheme option" where
  "print_cr3 s = map_option snd (kprintf (''cr3 => %p'' @ [CHR 0x0A]) [VInt (cr3 s)] s)"

definition print_cr4 :: "'a kernel_scheme \<Rightarrow> 'a kernel_scheme option" where
  "print_cr4 s = map_option snd (kprintf (''cr4 => %p'' @ [CHR 0x0A]) [VInt (cr4 s)] s)"

subsection \<open>Dispatch (src/interrupts.c, src/pages.c)\<close>

definition page_fault_handler :: "'a kernel_scheme \<Rightarrow> 'a kernel_scheme outcome option" where
  "page_fault_handler s = do {
     (_, s) \<leftarrow> print_cr2 s;
     Some (Halted s)
   }"

fun run_handler :: "device \<Rightarrow> interrupt_handler \<Rightarrow> 'a kernel_scheme \<Rightarrow> 'a kernel_scheme outcome option" where
  "run_handler dev Page_fault_handler s = page_fault_handler s"
| "run_handler dev Uart_handler s = Some (Returned (uart_handler dev s))"
| "run_handler dev Pit_handler s = Some (Returned (pit_handler s))"
| "run_handler dev Keyboard_handler s = map_option Returned (keyboard_handler dev s)"

definition exception_messages :: "string list" where
  "exception_messages =
     [''Division By Zero'', ''Debug'', ''Non Maskable Interrupt'', ''Breakpoint'', ''Into Detected Overflow'',
      ''Out of Bounds'', ''Invalid Opcode'', ''No Coprocessor'', ''Double fault'', ''Coprocessor Segment Overrun'',
      ''Bad TSS'', ''Segment not present'', ''Stack fault'', ''General protection fault'', ''Page fault'',
      ''Unknown Interrupt'', ''Coprocessor Fault'', ''Alignment Fault'', ''Machine Check'', ''Reserved'', ''Reserved'',
      ''Reserved'', ''Reserved'', ''Reserved'', ''Reserved'', ''Reserved'', ''Reserved'', ''Reserved'', ''Reserved'',
      ''Reserved'', ''Reserved'', ''Reserved'']"

fun kprintf_all :: "(string \<times> va list) list \<Rightarrow> 'a console_scheme \<Rightarrow> 'a console_scheme option" where
  "kprintf_all [] s = Some s"
| "kprintf_all ((fmt, ap) # ls) s = do { (_, s) \<leftarrow> kprintf fmt ap s; kprintf_all ls s }"

definition dump_head :: "regs \<Rightarrow> (string \<times> va list) list" where
  "dump_head regs =
     [(''Unhandled interrupt: %s'' @ [CHR 0x0A], [VStr (Some (exception_messages ! unat (int_no regs)))]),
      (''Error code: %d b%b'' @ [CHR 0x0A], [VInt (err_code regs), VInt (err_code regs)])]"

definition dump_regs :: "regs \<Rightarrow> (string \<times> va list) list" where
  "dump_regs regs =
     [(''int_no: %d'' @ [CHR 0x0A], [VInt (int_no regs)]),
      (''EIP: 0x%x'' @ [CHR 0x0A], [VInt (eip regs)]),
      (''CS: 0x%x'' @ [CHR 0x0A], [VInt (ucast (cs regs))]),
      (''EFLAGS: 0x%x'' @ [CHR 0x0A], [VInt (eflags regs)]),
      (''ESP: 0x%x'' @ [CHR 0x0A], [VInt (useresp regs)]),
      (''SS: %x'' @ [CHR 0x0A], [VInt (ss regs)]),
      (''DS: 0x%x'' @ [CHR 0x0A], [VInt (ds regs)]),
      (''ES: 0x%x'' @ [CHR 0x0A], [VInt (es regs)]),
      (''FS: 0x%x'' @ [CHR 0x0A], [VInt (fs regs)]),
      (''GS: 0x%x'' @ [CHR 0x0A], [VInt (gs regs)]),
      (''EDI: 0x%x'' @ [CHR 0x0A], [VInt (edi regs)]),
      (''ESI: 0x%x'' @ [CHR 0x0A], [VInt (esi regs)]),
      (''EBP: 0x%x'' @ [CHR 0x0A], [VInt (ebp regs)]),
      (''ESP: 0x%x'' @ [CHR 0x0A], [VInt (esp regs)]),
      (''EBX: 0x%x'' @ [CHR 0x0A], [VInt (ebx regs)]),
      (''EDX: 0x%x'' @ [CHR 0x0A], [VInt (edx regs)]),
      (''ECX: 0x%x'' @ [CHR 0x0A], [VInt (ecx regs)]),
      (''EAX: 0x%x'' @ [CHR 0x0A], [VInt (eax regs)]),
      (''Stoping the kernel'' @ [CHR 0x0A], [])]"

definition irq_handler :: "device \<Rightarrow> regs \<Rightarrow> 'a kernel_scheme \<Rightarrow> 'a kernel_scheme outcome option" where
  "irq_handler dev regs s =
     (if unat (int_no regs) \<ge> length (g_handlers s) then None
      else do {
        r \<leftarrow> (case g_handlers s ! unat (int_no regs) of
               Some handler \<Rightarrow> run_handler dev handler s
             | None \<Rightarrow> Some (Returned s));
        case r of
          Halted s \<Rightarrow> Some (Halted s)
        | Returned s \<Rightarrow>
            if int_no regs \<ge> 32 \<and> int_no regs < 48 then Some (Returned (irq_send_eoi (ucast (int_no regs)) s))
            else if int_no regs < 32
            then do {
              s \<leftarrow> kprintf_all (dump_head regs) s;
              s \<leftarrow> print_cr0 s;
              s \<leftarrow> kprintf_all (dump_regs regs) s;
              Some (Halted s)
            }
            else Some (Returned s)
      })"

subsection \<open>Screen and serial output\<close>

definition screen_only :: "'a machine_scheme \<Rightarrow> 'b machine_scheme \<Rightarrow> bool" where
  "screen_only s s' \<longleftrightarrow> (\<forall>y < 0x100000000. y < cell 0 \<or> cell 2000 \<le> y \<longrightarrow> mem s' (of_nat y) = mem s (of_nat y))"

lemma screen_only_refl [simp]: "mem s' = mem s \<Longrightarrow> screen_only s s'"
  by (simp add: screen_only_def)

lemma screen_only_trans [trans]: "screen_only s t \<Longrightarrow> screen_only t u \<Longrightarrow> screen_only s u"
  by (simp add: screen_only_def)

lemma printk_eq:
  "printk str s = uart_emit (map of_char (until_nul str)) (set_cells 0 (map (\<lambda>c. (of_char c, 0x14)) (until_nul str)) s)"
  by (simp add: printk_def do_printk_def uart_putstr_eq printk_on_screen_cells)

lemma set_cells_fields [simp]:
  "uart_addr (set_cells k vs s) = uart_addr s" "machine.more (set_cells k vs t) = machine.more t"
  by (induction vs arbitrary: k s t) (simp_all add: set_cell_def)

lemma set_cells_mem: "set_cells k vs s = s\<lparr>mem := mem (set_cells k vs s)\<rparr>"
  by (rule machine.equality) simp_all

lemma printk_frame:
  assumes "length str \<le> 2000"
  shows "\<exists>t m. printk str s = s\<lparr>trace := trace s @ t, mem := m\<rparr> \<and> screen_only s (s\<lparr>mem := m\<rparr>)"
proof -
  let ?vs = "map (\<lambda>c. (of_char c, 0x14)) (until_nul str) :: (u8 \<times> u8) list"
  have len: "length ?vs \<le> 2000" using assms length_takeWhile_le [of "\<lambda>c. c \<noteq> NUL" str] by simp
  then have "cell (0 + length ?vs) \<le> 0x100000000" "cell (length ?vs) \<le> cell 2000" by (simp_all add: cell_def)
  then have "screen_only s (set_cells 0 ?vs s)"
    using set_cells_byte [of 0 ?vs _ s] unfolding screen_only_def by auto
  moreover have "printk str s = s\<lparr>trace := trace s @ map (Out (uart_addr s)) (map of_char (until_nul str)), mem := mem (set_cells 0 ?vs s)\<rparr>"
    by (subst printk_eq, subst set_cells_mem) (simp add: uart_emit_def)
  ultimately show ?thesis by (auto simp: screen_only_def)
qed

subsection \<open>Keyboard\<close>

lemma length_KEYBOARD_US: "length KEYBOARD_US = 128"
  by (simp add: KEYBOARD_US_def)

lemma getchar_value:
  "let code = dev (trace s) IO_BUFFER
   in getchar dev s = Some (if code \<noteq> send_char s \<and> 0 < sint code then KEYBOARD_US ! unat code else NUL,
        s\<lparr>trace := trace s @ [In IO_BUFFER code], send_char := code\<rparr>)"
proof -
  define code where "code = dev (trace s) IO_BUFFER"
  have zero: "KEYBOARD_US ! 0 = NUL" by (simp add: KEYBOARD_US_def)
  have range: "sint code < 128" using sint_range_size [of code] by (simp add: word_size)
  have pos: "nat (sint code) = unat code" if "0 < sint code"
  proof -
    have "uint code = uint (word_of_int (sint code) :: u8)" by simp
    also have "\<dots> = sint code mod 256" unfolding uint_word_of_int by simp
    also have "\<dots> = sint code" using that range by simp
    finally show ?thesis by (metis nat_uint_eq)
  qed
  show ?thesis
    using range pos zero unfolding code_def [symmetric] Let_def
    by (auto simp: getchar_def kb_get_key_def inb_def code_def [symmetric] Let_def length_KEYBOARD_US)
qed

text \<open>C32. Reading a key always has a defined result: the code from the controller, if it differs from the one
  before and is a key press (below 0x80), indexes the table of 128 characters, and any other code gives
  the NUL character. The code becomes the one to compare with.\<close>

theorem getchar_decodes:
  "let code = dev (trace s) IO_BUFFER
   in getchar dev s = Some (if code \<noteq> send_char s \<and> 0 < sint code then KEYBOARD_US ! unat code else NUL,
        s\<lparr>trace := trace s @ [In IO_BUFFER code], send_char := code\<rparr>)"
  by (rule getchar_value)

subsection \<open>Interrupts from the devices\<close>

text \<open>The handlers that the drivers register.\<close>

definition wired :: "'a irqs_scheme \<Rightarrow> bool" where
  "wired s \<longleftrightarrow> length (g_handlers s) = 256 \<and> g_handlers s ! 32 = Some Pit_handler \<and>
     g_handlers s ! 33 = Some Keyboard_handler \<and> g_handlers s ! 36 = Some Uart_handler"

abbreviation device_vectors :: "u32 set" where "device_vectors \<equiv> {32, 33, 36}"

definition eoi_events :: "io_event list" where
  "eoi_events = [Out PIC2_COMMAND PIC_EOI, Out PIC1_COMMAND PIC_EOI]"

lemma uart_recv_frame:
  obtains c l where "uart_recv dev s = (c, s\<lparr>trace := trace s @ l\<rparr>)"
  by (cases "dev (trace s) (uart_addr s + 2) AND 0x0F = 4") (auto simp: uart_recv_def inb_def Let_def)

lemma uart_handler_frame:
  "\<exists>t m. uart_handler dev s = s\<lparr>trace := trace s @ t, mem := m\<rparr> \<and> screen_only s (s\<lparr>mem := m\<rparr>)"
proof -
  obtain t m where p: "printk ''UART : '' s = s\<lparr>trace := trace s @ t, mem := m\<rparr>" "screen_only s (s\<lparr>mem := m\<rparr>)"
    using printk_frame [of "''UART : ''" s] by auto
  let ?s = "s\<lparr>trace := trace s @ t, mem := m\<rparr>"
  obtain c l where r: "uart_recv dev ?s = (c, ?s\<lparr>trace := trace s @ t @ l\<rparr>)" by (rule uart_recv_frame [of dev ?s]) auto
  have "uart_handler dev s = s\<lparr>trace := trace s @ (t @ l @ [Out (uart_addr s) c, Out (uart_addr s) 10]), mem := m\<rparr>"
    unfolding uart_handler_def p(1) Let_def r by (simp add: uart_putchar_def uart_send_def outb_def)
  then show ?thesis using p(2) by blast
qed

lemma keyboard_handler_frame:
  "\<exists>t b. keyboard_handler dev s = Some (s\<lparr>trace := trace s @ t, send_char := b\<rparr>)"
proof -
  obtain c b where "getchar dev s = Some (c, s\<lparr>trace := trace s @ [In IO_BUFFER b], send_char := b\<rparr>)"
    using getchar_value [of dev s] by (auto simp: Let_def)
  then have "keyboard_handler dev s =
      Some (s\<lparr>trace := trace s @ [In IO_BUFFER b, Out (uart_addr s) (of_char c)], send_char := b\<rparr>)"
    by (simp add: keyboard_handler_def uart_putchar_def uart_send_def outb_def)
  then show ?thesis by blast
qed

lemma irq_device_step:
  assumes "wired s" and "int_no regs \<in> device_vectors"
  obtains t m b where "irq_handler dev regs s = Some (Returned (s\<lparr>trace := trace s @ t @ eoi_events, mem := m,
      ticks := ticks s + (if int_no regs = 32 then 1 else 0), send_char := b\<rparr>))" "screen_only s (s\<lparr>mem := m\<rparr>)"
proof -
  have len: "\<not> length (g_handlers s) \<le> unat (int_no regs)" and eoi: "int_no regs \<ge> 32" "int_no regs < 48"
    using assms by (auto simp: wired_def)
  have ev: "irq_send_eoi (ucast (int_no regs)) u = u\<lparr>trace := trace u @ eoi_events\<rparr>" for u :: "'a kernel_scheme"
    using assms(2) by (auto simp: irq_send_eoi_eq eoi_events_def)
  have run: "irq_handler dev regs s = Some (Returned (u\<lparr>trace := trace u @ eoi_events\<rparr>))"
    if "run_handler dev h s = Some (Returned u)" "g_handlers s ! unat (int_no regs) = Some h" for h u
    unfolding irq_handler_def using len eoi that by (simp add: ev)
  consider "int_no regs = 32" | "int_no regs = 33" | "int_no regs = 36" using assms(2) by blast
  then show ?thesis
  proof cases
    case 1
    then have "irq_handler dev regs s = Some (Returned (s\<lparr>ticks := ticks s + 1, trace := trace s @ eoi_events\<rparr>))"
      using run [of Pit_handler "pit_handler s"] assms(1) by (simp add: wired_def pit_handler_def)
    with 1 show ?thesis by (intro that [where t = "[]" and m = "mem s" and b = "send_char s"]) simp_all
  next
    case 2
    obtain t b where "keyboard_handler dev s = Some (s\<lparr>trace := trace s @ t, send_char := b\<rparr>)"
      using keyboard_handler_frame by blast
    with 2 have "irq_handler dev regs s = Some (Returned (s\<lparr>send_char := b, trace := trace s @ t @ eoi_events\<rparr>))"
      using run [of Keyboard_handler] assms(1) by (simp add: wired_def)
    with 2 show ?thesis by (intro that [where t = t and m = "mem s" and b = b]) simp_all
  next
    case 3
    obtain t m where "uart_handler dev s = s\<lparr>trace := trace s @ t, mem := m\<rparr>" and m: "screen_only s (s\<lparr>mem := m\<rparr>)"
      using uart_handler_frame by blast
    with 3 have "irq_handler dev regs s = Some (Returned (s\<lparr>mem := m, trace := trace s @ t @ eoi_events\<rparr>))"
      using run [of Uart_handler] assms(1) by (simp add: wired_def)
    with 3 m show ?thesis by (intro that [where t = t and m = m and b = "send_char s"]) simp_all
  qed
qed

text \<open>C20. With the drivers' handlers registered, an interrupt from the timer, the keyboard or the UART is
  handled and acknowledged, and the kernel goes on: the handler table is unchanged, only a timer
  interrupt advances the tick counter (by one, modulo \<open>2 ^ 32\<close>), memory outside the screen is untouched,
  and the last two commands sent are the end of interrupt to the slave and to the master controller.\<close>

theorem irq_handler_devices:
  assumes "wired s" and "int_no regs \<in> device_vectors"
  shows "\<exists>s' t. irq_handler dev regs s = Some (Returned s') \<and> wired s' \<and>
    ticks s' = ticks s + (if int_no regs = 32 then 1 else 0) \<and> screen_only s s' \<and>
    trace s' = trace s @ t @ [Out PIC2_COMMAND PIC_EOI, Out PIC1_COMMAND PIC_EOI]"
proof -
  obtain t m b where "irq_handler dev regs s = Some (Returned (s\<lparr>trace := trace s @ t @ eoi_events, mem := m,
      ticks := ticks s + (if int_no regs = 32 then 1 else 0), send_char := b\<rparr>))" "screen_only s (s\<lparr>mem := m\<rparr>)"
    by (rule irq_device_step [OF assms])
  then show ?thesis using assms(1) by (simp add: wired_def screen_only_def eoi_events_def)
qed

subsection \<open>Exceptions\<close>

lemma kprintf_all_printed:
  "(\<And>f ap. (f, ap) \<in> set ls \<Longrightarrow> render f ap \<noteq> None) \<Longrightarrow> \<exists>s'. kprintf_all ls s = Some s' \<and> printed s s'"
proof (induction ls arbitrary: s)
  case (Cons l ls)
  obtain f ap where l: "l = (f, ap)" by (cases l)
  then have "render f ap \<noteq> None" using Cons.prems by simp
  then obtain r s1 where s1: "kprintf f ap s = Some (r, s1)" "printed s s1" by (rule kprintf_printed)
  obtain s2 where "kprintf_all ls s1 = Some s2" "printed s1 s2" using Cons.IH [of s1] Cons.prems by auto
  then show ?case using s1 l printed_trans by auto
qed simp

lemma dump_head_renders:
  assumes "sint (err_code regs) \<noteq> INT_MIN" and "(f, ap) \<in> set (dump_head regs)"
  shows "render f ap \<noteq> None"
  using assms by (auto simp: dump_head_def render_simps)

lemma dump_regs_renders:
  assumes "int_no regs < 32" and "(f, ap) \<in> set (dump_regs regs)"
  shows "render f ap \<noteq> None"
proof -
  have "unat (int_no regs) < 2147483648" using assms(1) by (simp add: word_less_nat_alt)
  then have "sint (int_no regs) \<noteq> INT_MIN" using sint_small [of "unat (int_no regs)"] by simp
  then show ?thesis using assms(2) unfolding dump_regs_def by (auto simp: render_simps)
qed


subsection \<open>Initialisation of the drivers\<close>

lemma irq_unmask_frame:
  assumes "0 \<le> irq" and "irq < 16"
  obtains t where "irq_unmask dev irq s = Some (s\<lparr>trace := trace s @ t\<rparr>)" "outs_to COUNTER_0 t = []" "outs_to COUNTER_REG t = []"
proof -
  define p n where "p = (if irq < 8 then PIC1_DATA else PIC2_DATA)" and "n = (if irq < 8 then irq else irq - 8)"
  let ?v = "dev (trace s) p"
  have "0 \<le> n \<and> n < 31" using assms by (auto simp: n_def)
  then have "irq_unmask dev irq s = Some (s\<lparr>trace := trace s @ [In p ?v, Out p (ucast (ucast ?v AND NOT (push_bit (nat n) (1 :: u32))))]\<rparr>)"
    using assms by (simp add: irq_unmask_def inb_def outb_def Let_def shift_one_def p_def n_def)
  then show ?thesis by (rule that) (simp_all add: p_def pic_ports COUNTER_0_def COUNTER_REG_def)
qed

lemma pit_init_frame:
  assumes "freq \<noteq> 0" and "length (g_handlers s) = 256" and d_def: "d = (of_int (c_div FREQUENCY freq) :: u32)"
  obtains t where "irq_unmask dev 0 s = Some (s\<lparr>trace := trace s @ t\<rparr>)" "outs_to COUNTER_0 t = []" "outs_to COUNTER_REG t = []"
    "pit_init dev freq s = Some (s\<lparr>trace := trace s @ t @ [Out COUNTER_REG 0x40, Out COUNTER_0 (ucast (d AND 0xff)),
      Out COUNTER_0 (ucast (drop_bit 8 d AND 0xff))], g_handlers := (g_handlers s)[32 := Some Pit_handler]\<rparr>)"
proof -
  obtain t where t: "irq_unmask dev 0 s = Some (s\<lparr>trace := trace s @ t\<rparr>)" "outs_to COUNTER_0 t = []" "outs_to COUNTER_REG t = []"
    by (rule irq_unmask_frame [of 0 dev s]) simp_all
  have "pit_init dev freq s = Some (s\<lparr>trace := trace s @ t @ [Out COUNTER_REG 0x40, Out COUNTER_0 (ucast (d AND 0xff)),
      Out COUNTER_0 (ucast (drop_bit 8 d AND 0xff))], g_handlers := (g_handlers s)[32 := Some Pit_handler]\<rparr>)"
    using t(1) assms(1,2) by (simp add: pit_init_def register_irq_handler_def outb_def Let_def SC_0_def MODE_2_def d_def)
  then show ?thesis using t that by blast
qed

definition uart_setup :: "io_event list" where
  "uart_setup = [Out (SERIAL_PORT + 1) 0x01, Out (SERIAL_PORT + 2) 0x00, Out (SERIAL_PORT + 3) 0x80, Out (SERIAL_PORT + 0) 0x03,
     Out (SERIAL_PORT + 1) 0x00, Out (SERIAL_PORT + 3) 0x03, Out (SERIAL_PORT + 4) 0x0B]"

lemma uart_init_frame:
  assumes "uart_addr s \<noteq> SERIAL_PORT" and "length (g_handlers s) = 256"
    and u_def: "u = s\<lparr>uart_addr := SERIAL_PORT, trace := trace s @ uart_setup\<rparr>"
  obtains t where "irq_unmask dev 4 u = Some (u\<lparr>trace := trace u @ t\<rparr>)"
    "uart_init dev SERIAL_PORT s = Some (u\<lparr>trace := trace u @ t, g_handlers := (g_handlers s)[36 := Some Uart_handler]\<rparr>)"
proof -
  obtain t where t: "irq_unmask dev 4 u = Some (u\<lparr>trace := trace u @ t\<rparr>)" by (rule irq_unmask_frame [of 4 dev u]) simp_all
  have "uart_init dev SERIAL_PORT s = register_irq_handler 36 Uart_handler (u\<lparr>trace := trace u @ t\<rparr>)"
    using t assms(1) by (simp add: uart_init_def outb_def Let_def u_def uart_setup_def)
  then show ?thesis using t that assms(2) by (simp add: register_irq_handler_def u_def)
qed

lemma other_ports:
  "outs_to PIC1_DATA uart_setup = []" "outs_to PIC2_DATA uart_setup = []"
  "outs_to PIC1_DATA [Out COUNTER_REG a, Out COUNTER_0 b, Out COUNTER_0 c] = []"
  "outs_to PIC2_DATA [Out COUNTER_REG a, Out COUNTER_0 b, Out COUNTER_0 c] = []"
  by (simp_all add: uart_setup_def SERIAL_PORT_def pic_ports COUNTER_REG_def COUNTER_0_def)

lemma drivers_wired:
  assumes "length (g_handlers s) = 256" and "uart_addr s \<noteq> SERIAL_PORT"
  obtains s1 s2 s3 t where "kb_init dev s = Some s1" "pit_init dev 100 s1 = Some s2" "uart_init dev SERIAL_PORT s2 = Some s3"
    "s3 = s\<lparr>trace := t, uart_addr := SERIAL_PORT, g_handlers := (g_handlers s)[33 := Some Keyboard_handler, 32 := Some Pit_handler,
      36 := Some Uart_handler]\<rparr>"
    "\<And>m1 m2 j. mask_readback m1 m2 dev \<Longrightarrow> 0 \<le> j \<Longrightarrow> j < 16 \<Longrightarrow>
      line_masked m1 m2 t j \<longleftrightarrow> j \<notin> {0, 1, 4} \<and> line_masked m1 m2 (trace s) j"
proof -
  obtain t1 where t1: "irq_unmask dev 1 s = Some (s\<lparr>trace := trace s @ t1\<rparr>)" by (rule irq_unmask_frame [of 1 dev s]) simp_all
  define s1 where "s1 = s\<lparr>trace := trace s @ t1, g_handlers := (g_handlers s)[33 := Some Keyboard_handler]\<rparr>"
  have k: "kb_init dev s = Some s1" using t1 assms(1) by (simp add: kb_init_def register_irq_handler_def s1_def)
  have len: "length (g_handlers s1) = 256" using assms(1) by (simp add: s1_def)
  define d where "d = (of_int (c_div FREQUENCY 100) :: u32)"
  let ?c = "[Out COUNTER_REG 0x40, Out COUNTER_0 (ucast (d AND 0xff)), Out COUNTER_0 (ucast (drop_bit 8 d AND 0xff))]"
  obtain t2 where t2: "irq_unmask dev 0 s1 = Some (s1\<lparr>trace := trace s1 @ t2\<rparr>)"
    and p: "pit_init dev 100 s1 = Some (s1\<lparr>trace := trace s1 @ t2 @ ?c, g_handlers := (g_handlers s1)[32 := Some Pit_handler]\<rparr>)"
    by (rule pit_init_frame [OF _ len d_def, of dev]) simp_all
  define s2 where "s2 = s1\<lparr>trace := trace s1 @ t2 @ ?c, g_handlers := (g_handlers s1)[32 := Some Pit_handler]\<rparr>"
  define u where "u = s2\<lparr>uart_addr := SERIAL_PORT, trace := trace s2 @ uart_setup\<rparr>"
  have s2: "uart_addr s2 \<noteq> SERIAL_PORT" "length (g_handlers s2) = 256" using assms by (simp_all add: s2_def s1_def)
  obtain t3 where t3: "irq_unmask dev 4 u = Some (u\<lparr>trace := trace u @ t3\<rparr>)"
    and r: "uart_init dev SERIAL_PORT s2 = Some (u\<lparr>trace := trace u @ t3, g_handlers := (g_handlers s2)[36 := Some Uart_handler]\<rparr>)"
    by (rule uart_init_frame [OF s2 u_def, of dev])
  show ?thesis
  proof (rule that [OF k p [folded s2_def] r, where t = "trace u @ t3"])
    show "u\<lparr>trace := trace u @ t3, g_handlers := (g_handlers s2)[36 := Some Uart_handler]\<rparr> =
        s\<lparr>trace := trace u @ t3, uart_addr := SERIAL_PORT, g_handlers := (g_handlers s)[33 := Some Keyboard_handler,
          32 := Some Pit_handler, 36 := Some Uart_handler]\<rparr>"
      by (simp add: u_def s2_def s1_def)
    fix m1 m2 j assume rb: "mask_readback m1 m2 dev" and j: "0 \<le> j" "j < (16 :: int)"
    have "line_masked m1 m2 (trace u @ t3) j \<longleftrightarrow> j \<noteq> 4 \<and> line_masked m1 m2 (trace u) j"
      using irq_unmask_mask [OF rb _ _ t3 j] by simp
    also have "line_masked m1 m2 (trace u) j = line_masked m1 m2 (trace s1 @ t2) j"
    proof -
      have "trace u = ((trace s1 @ t2) @ ?c) @ uart_setup" by (simp add: u_def s2_def)
      then show ?thesis by (simp only: line_masked_append [OF other_ports(1,2)] line_masked_append [OF other_ports(3,4)])
    qed
    also have "\<dots> \<longleftrightarrow> j \<noteq> 0 \<and> line_masked m1 m2 (trace s1) j" using irq_unmask_mask [OF rb _ _ t2 j] by simp
    also have "line_masked m1 m2 (trace s1) j \<longleftrightarrow> j \<noteq> 1 \<and> line_masked m1 m2 (trace s) j"
      using irq_unmask_mask [OF rb _ _ t1 j] by (simp add: s1_def)
    finally show "line_masked m1 m2 (trace u @ t3) j \<longleftrightarrow> j \<notin> {0, 1, 4} \<and> line_masked m1 m2 (trace s) j" by blast
  qed
qed

text \<open>C30. The initialisation of the drivers, in the order of \<open>main_new\<close>, completes: the three handlers are registered,
  the UART is ready, and of the sixteen interrupt lines exactly those of the timer, the keyboard and
  the first serial port are newly unmasked.\<close>

theorem drivers_init:
  assumes "length (g_handlers s) = 256" and "uart_addr s \<noteq> SERIAL_PORT" and "mask_readback m1 m2 dev"
  shows "\<exists>s1 s2 s3. kb_init dev s = Some s1 \<and> pit_init dev 100 s1 = Some s2 \<and> uart_init dev SERIAL_PORT s2 = Some s3 \<and>
    wired s3 \<and> uart_is_init s3 \<and> mem s3 = mem s \<and>
    (\<forall>j. 0 \<le> j \<and> j < 16 \<longrightarrow> line_masked m1 m2 (trace s3) j \<longleftrightarrow> j \<notin> {0, 1, 4} \<and> line_masked m1 m2 (trace s) j)"
proof (rule drivers_wired [OF assms(1,2), of dev])
  fix s1 s2 s3 t
  assume "kb_init dev s = Some s1" "pit_init dev 100 s1 = Some s2" "uart_init dev SERIAL_PORT s2 = Some s3"
    and s3: "s3 = s\<lparr>trace := t, uart_addr := SERIAL_PORT, g_handlers := (g_handlers s)[33 := Some Keyboard_handler,
      32 := Some Pit_handler, 36 := Some Uart_handler]\<rparr>"
    and lines: "\<And>m1 m2 j. mask_readback m1 m2 dev \<Longrightarrow> 0 \<le> j \<Longrightarrow> j < 16 \<Longrightarrow>
      line_masked m1 m2 t j \<longleftrightarrow> j \<notin> {0, 1, 4} \<and> line_masked m1 m2 (trace s) j"
  moreover have "wired s3" using assms(1) by (simp add: s3 wired_def)
  moreover have "uart_is_init s3" by (simp add: s3 uart_is_init_def SERIAL_PORT_def)
  ultimately show ?thesis using assms(3) by auto
qed

text \<open>C31. For every frequency from 19 Hz up, \<open>pit_init\<close> sends the two bytes of the divisor of the timer's base frequency
  to counter 0, low byte first, and registers its handler. The command byte before them is \<open>0x40\<close>, whose
  upper two bits select counter 1.\<close>

theorem pit_init_divisor:
  assumes "19 \<le> freq" and "length (g_handlers s) = 256"
  shows "\<exists>s' t lo hi. pit_init dev freq s = Some s' \<and> trace s' = trace s @ t \<and> outs_to COUNTER_REG t = [0x40] \<and>
    outs_to COUNTER_0 t = [lo, hi] \<and> unat lo + 256 * unat hi = nat (FREQUENCY div freq) \<and>
    g_handlers s' ! 32 = Some Pit_handler"
proof -
  define d where "d = (of_int (c_div FREQUENCY freq) :: u32)"
  define n where "n = nat (FREQUENCY div freq)"
  have nn: "0 \<le> FREQUENCY div freq" using assms(1) by (simp add: FREQUENCY_def pos_imp_zdiv_nonneg_iff)
  have "FREQUENCY div freq \<le> FREQUENCY div 19" using assms(1) by (intro zdiv_mono2) (simp_all add: FREQUENCY_def)
  then have n: "n < 65536" by (simp add: n_def FREQUENCY_def)
  have d: "d = of_nat n" using nn assms(1) by (simp add: d_def n_def FREQUENCY_def)
  have lo: "unat (ucast (d AND 0xff) :: u8) = n mod 256"
  proof -
    have "(ucast (d AND 0xff) :: u8) = of_nat n" unfolding d masks by (rule bit_word_eqI) (auto simp: bit_simps)
    then show ?thesis by (simp add: unat_of_nat)
  qed
  have hi: "unat (ucast (drop_bit 8 d AND 0xff) :: u8) = n div 256"
  proof -
    have "drop_bit 8 d = of_nat (n div 256)" unfolding d using n of_nat_div_32 [of n 256] by (simp add: drop_bit_eq_div)
    then have "(ucast (drop_bit 8 d AND 0xff) :: u8) = of_nat (n div 256)" unfolding masks by (intro bit_word_eqI) (auto simp: bit_simps)
    moreover have "n div 256 < 256" using n by auto
    ultimately show ?thesis by (simp add: unat_of_nat)
  qed
  have freq: "freq \<noteq> 0" using assms(1) by simp
  show ?thesis
  proof (rule pit_init_frame [OF freq assms(2) d_def, of dev])
    fix t assume t: "outs_to COUNTER_0 t = []" "outs_to COUNTER_REG t = []"
      and run: "pit_init dev freq s = Some (s\<lparr>trace := trace s @ t @ [Out COUNTER_REG 0x40, Out COUNTER_0 (ucast (d AND 0xff)),
      Out COUNTER_0 (ucast (drop_bit 8 d AND 0xff))], g_handlers := (g_handlers s)[32 := Some Pit_handler]\<rparr>)"
    have "n mod 256 + 256 * (n div 256) = nat (FREQUENCY div freq)" by (simp add: n_def)
    then show ?thesis
      using t lo hi assms(2) unfolding run by (simp add: COUNTER_0_def COUNTER_REG_def)
  qed
qed

end
