(* ===== verification/FrameProps.thy ===== *)
theory FrameProps
  imports Frame
begin

text \<open>
  Correctness of the frame allocator: first-fit allocation of runs of free frames, the
  effect of every operation on the reference counts, and what it leaves alone. The
  contract of an allocator of runs is the locale \<open>frame_allocator\<close>, which \<open>alloc_frame\<close> and
  \<open>alloc_frames\<close> both meet.
\<close>

subsection \<open>The frame array as a list of counts\<close>

definition nframes :: "'a kmem_scheme \<Rightarrow> nat" where
  "nframes s = unat (frames_count (g_frames_context s))"

text \<open>There are at most \<open>2 ^ 20\<close> frames in a 4 GB address space.\<close>

definition frames_ok :: "'a kmem_scheme \<Rightarrow> bool" where
  "frames_ok s \<longleftrightarrow> nframes s \<le> 0x100000"

definition rc :: "'a machine_scheme \<Rightarrow> nat \<Rightarrow> u32" where
  "rc s i = fr_ref_count (get_frame_at (of_nat i)) s"

definition fa :: "nat \<Rightarrow> nat" where
  "fa i = 0xC0800000 + 12 * i"

lemma get_frame_at_nat: "get_frame_at (of_nat i) = of_nat (fa i)"
  by (simp add: get_frame_at_def fa_def layout_values algebra_simps)

lemma rc_load: "rc s i = load32 (mem s) (of_nat (fa i))"
  by (simp add: rc_def fr_ref_count_def ld_def get_frame_at_nat)

lemma fa_bound: "i \<le> 0x100000 \<Longrightarrow> fa i + 12 \<le> 4294967296"
  by (simp add: fa_def)

lemma frame_not_null: "i \<le> 0x100000 \<Longrightarrow> get_frame_at (of_nat i) \<noteq> NULL"
  using of_nat_eq_0_32 [of "fa i"] fa_bound [of i] by (simp add: get_frame_at_nat) (simp add: fa_def)

lemma get_frame_at_add: "get_frame_at (of_nat i) + 12 = get_frame_at (of_nat (Suc i))"
  by (simp add: get_frame_at_def algebra_simps)

lemma fr_ref_count_set_nat:
  "fr_ref_count_set (get_frame_at (of_nat i)) v s = s\<lparr>mem := store32 (mem s) (of_nat (fa i)) v\<rparr>"
  by (simp add: fr_ref_count_set_def st_def get_frame_at_nat)

lemma rc_set:
  assumes "i \<le> 0x100000" and "j \<le> 0x100000"
  shows "rc (fr_ref_count_set (get_frame_at (of_nat i)) v s) j = (if j = i then v else rc s j)"
proof (cases "j = i")
  case False
  then have "fa i + 4 \<le> fa j \<or> fa j + 4 \<le> fa i" by (auto simp: fa_def)
  with False fa_bound [OF assms(1)] fa_bound [OF assms(2)] show ?thesis
    by (simp add: rc_load fr_ref_count_set_nat load32_store32_nat)
qed (simp add: rc_load fr_ref_count_set_nat)

subsection \<open>Setting a run of counts\<close>

text \<open>The memory after \<open>n\<close> entries from \<open>i\<close> on have received the count \<open>v\<close>.\<close>

fun set_run :: "nat \<Rightarrow> nat \<Rightarrow> u32 \<Rightarrow> memory \<Rightarrow> memory" where
  "set_run i 0 v m = m"
| "set_run i (Suc n) v m = set_run (Suc i) n v (store32 m (of_nat (fa i)) v)"

lemma frames_set_ref_count_loop_eq:
  assumes "c \<le> n"
  shows "frames_set_ref_count_loop (get_frame_at (of_nat i)) (int n) v (int c) s =
     s\<lparr>mem := set_run i (n - c) v (mem s)\<rparr>"
  using assms
proof (induction "n - c" arbitrary: c i s)
  case 0
  then show ?case by (subst frames_set_ref_count_loop.simps) simp
next
  case (Suc d)
  then have c: "c < n" "n - c = Suc d" "d = n - Suc c" "Suc c \<le> n" by auto
  have step: "int c + 1 = int (Suc c)" by simp
  show ?case
    using Suc.hyps(1) [OF c(3,4), of "Suc i" "s\<lparr>mem := store32 (mem s) (of_nat (fa i)) v\<rparr>"] c
    by (subst frames_set_ref_count_loop.simps)
      (simp add: get_frame_at_add fr_ref_count_set_nat step del: of_nat_Suc)
qed

lemma frames_set_ref_count_eq:
  "frames_set_ref_count (get_frame_at (of_nat i)) (int n) v s = s\<lparr>mem := set_run i n v (mem s)\<rparr>"
  using frames_set_ref_count_loop_eq [of 0 n i v s] by (simp add: frames_set_ref_count_def)

lemma set_run_other:
  assumes "i + n \<le> 0x100000" and "y < 4294967296" and "\<And>k. i \<le> k \<Longrightarrow> k < i + n \<Longrightarrow> y < fa k \<or> fa k + 4 \<le> y"
  shows "set_run i n v m (of_nat y) = m (of_nat y)"
  using assms
proof (induction n arbitrary: i m)
  case (Suc n)
  have "set_run (Suc i) n v (store32 m (of_nat (fa i)) v) (of_nat y) = store32 m (of_nat (fa i)) v (of_nat y)"
    by (rule Suc.IH) (use Suc.prems in auto)
  also have "\<dots> = m (of_nat y)"
    by (rule store32_nat_other) (use Suc.prems in \<open>auto simp: fa_def\<close>)
  finally show ?case by simp
qed simp

lemma load_set_run:
  assumes "i + n \<le> 0x100000" and "y + 4 \<le> 4294967296"
    and "\<And>k. i \<le> k \<Longrightarrow> k < i + n \<Longrightarrow> y + 4 \<le> fa k \<or> fa k + 4 \<le> y"
  shows "load32 (set_run i n v m) (of_nat y) = load32 m (of_nat y)"
  using assms
proof (induction n arbitrary: i m)
  case (Suc n)
  have "load32 (set_run (Suc i) n v (store32 m (of_nat (fa i)) v)) (of_nat y) =
      load32 (store32 m (of_nat (fa i)) v) (of_nat y)"
    by (rule Suc.IH) (use Suc.prems in auto)
  also have "\<dots> = load32 m (of_nat y)"
    by (rule load32_store32_nat) (use Suc.prems(3) [of i] Suc.prems(1,2) in \<open>auto simp: fa_def\<close>)
  finally show ?case by simp
qed simp

lemma load_set_run_in:
  assumes "i + n \<le> 0x100000" and "i \<le> k" and "k < i + n"
  shows "load32 (set_run i n v m) (of_nat (fa k)) = v"
  using assms
proof (induction n arbitrary: i m)
  case (Suc n)
  show ?case
  proof (cases "k = i")
    case True
    have "load32 (set_run (Suc i) n v (store32 m (of_nat (fa i)) v)) (of_nat (fa i)) =
        load32 (store32 m (of_nat (fa i)) v) (of_nat (fa i))"
      by (rule load_set_run) (use Suc.prems in \<open>auto simp: fa_def\<close>)
    with True show ?thesis by simp
  next
    case False
    with Suc show ?thesis by simp
  qed
qed simp

lemma rc_set_run:
  assumes "i + n \<le> 0x100000" and "j \<le> 0x100000"
  shows "rc (s\<lparr>mem := set_run i n v (mem s)\<rparr>) j = (if i \<le> j \<and> j < i + n then v else rc s j)"
proof (cases "i \<le> j \<and> j < i + n")
  case True
  with assms show ?thesis by (simp add: rc_load load_set_run_in)
next
  case False
  have "load32 (set_run i n v (mem s)) (of_nat (fa j)) = load32 (mem s) (of_nat (fa j))"
    by (rule load_set_run) (use False assms in \<open>auto simp: fa_def\<close>)
  with False show ?thesis by (auto simp: rc_load)
qed

subsection \<open>First-fit search\<close>

definition free_run :: "'a machine_scheme \<Rightarrow> nat \<Rightarrow> nat \<Rightarrow> bool" where
  "free_run s i n \<longleftrightarrow> (\<forall>k. i \<le> k \<and> k < i + n \<longrightarrow> rc s k = 0)"

definition first_run :: "'a kmem_scheme \<Rightarrow> nat \<Rightarrow> nat \<Rightarrow> bool" where
  "first_run s n i \<longleftrightarrow> i + n \<le> nframes s \<and> free_run s i n \<and> (\<forall>j < i. \<not> free_run s j n)"

lemma alloc_frames_loop_spec:
  assumes "frames_ok s" and "c \<le> nframes s" and "k \<le> c" and "k < n"
    and "free_run s (c - k) k" and "\<forall>j < c - k. \<not> free_run s j n"
  shows "(\<exists>i. first_run s n i \<and>
      alloc_frames_loop (int n) (of_nat c) (int k) (if k = 0 then NULL else get_frame_at (of_nat (c - k))) s =
        (SUCCES, Some (get_frame_at (of_nat i)), frames_set_ref_count (get_frame_at (of_nat i)) (int n) 1 s)) \<or>
    (\<forall>i. i + n \<le> nframes s \<longrightarrow> \<not> free_run s i n) \<and>
      alloc_frames_loop (int n) (of_nat c) (int k) (if k = 0 then NULL else get_frame_at (of_nat (c - k))) s =
        (FAILED, None, s)"
  using assms
proof (induction "nframes s - c" arbitrary: c k)
  case 0
  then have c: "c = nframes s" by simp
  have "\<not> free_run s i n" if "i + n \<le> nframes s" for i
    using "0.prems" that c by auto
  moreover have "alloc_frames_loop (int n) (of_nat c) (int k) f s = (FAILED, None, s)" for f
    using c by (subst alloc_frames_loop.simps) (simp add: nframes_def)
  ultimately show ?case by blast
next
  case (Suc d)
  then have c: "c < nframes s" "d = nframes s - Suc c" "Suc c \<le> nframes s" by auto
  have le: "c < 0x100000" using c Suc.prems(1) by (simp add: frames_ok_def)
  have guard: "of_nat c < frames_count (g_frames_context s)"
    using c le by (simp add: nframes_def word_less_nat_alt unat_of_nat_32)
  have inc: "of_nat c + 1 = (of_nat (Suc c) :: u32)" by simp
  let ?f = "if k = 0 then NULL else get_frame_at (of_nat (c - k))"
  show ?case
  proof (cases "rc s c = 0")
    case True
    have run: "free_run s (Suc c - Suc k) (Suc k)"
      using Suc.prems(3,5) True by (auto simp: free_run_def less_Suc_eq)
    have saved: "(if ?f = NULL then get_frame_at (of_nat c) else ?f) = get_frame_at (of_nat (c - k))"
      using frame_not_null [of "c - k"] le by auto
    show ?thesis
    proof (cases "Suc k = n")
      case True
      have "first_run s n (c - k)"
        using Suc.prems run True c by (auto simp: first_run_def)
      moreover have "alloc_frames_loop (int n) (of_nat c) (int k) ?f s =
          (SUCCES, Some (get_frame_at (of_nat (c - k))), frames_set_ref_count (get_frame_at (of_nat (c - k))) (int n) 1 s)"
        using guard \<open>rc s c = 0\<close> saved True
        by (subst alloc_frames_loop.simps) (auto simp: rc_def Let_def)
      ultimately show ?thesis by blast
    next
      case False
      have "alloc_frames_loop (int n) (of_nat c) (int k) ?f s =
          alloc_frames_loop (int n) (of_nat (Suc c)) (int (Suc k)) (get_frame_at (of_nat (Suc c - Suc k))) s"
        using guard \<open>rc s c = 0\<close> saved False
        by (subst alloc_frames_loop.simps) (auto simp: rc_def Let_def inc add.commute)
      with Suc.hyps(1) [OF c(2) Suc.prems(1) c(3), of "Suc k"] Suc.prems False run
      show ?thesis by simp
    qed
  next
    case False
    have none: "\<forall>j < Suc c. \<not> free_run s j n"
    proof (intro allI impI)
      fix j assume "j < Suc c"
      show "\<not> free_run s j n"
      proof (cases "j < c - k")
        case True
        with Suc.prems(6) show ?thesis by blast
      next
        case F: False
        with \<open>j < Suc c\<close> Suc.prems(4) have "j \<le> c" "c < j + n" by auto
        with False show ?thesis by (auto simp: free_run_def)
      qed
    qed
    have "alloc_frames_loop (int n) (of_nat c) (int k) ?f s =
        alloc_frames_loop (int n) (of_nat (Suc c)) (int 0) NULL s"
      using guard False by (subst alloc_frames_loop.simps) (auto simp: rc_def Let_def inc add.commute)
    with Suc.hyps(1) [OF c(2) Suc.prems(1) c(3), of 0] Suc.prems none
    show ?thesis by (simp add: free_run_def)
  qed
qed

lemma alloc_frames_cases:
  assumes "frames_ok s" and "0 < n"
  shows "(\<exists>i. first_run s n i \<and> alloc_frames (int n) s =
      (SUCCES, Some (get_frame_at (of_nat i)), s\<lparr>mem := set_run i n 1 (mem s)\<rparr>)) \<or>
    (\<forall>i. i + n \<le> nframes s \<longrightarrow> \<not> free_run s i n) \<and> alloc_frames (int n) s = (FAILED, None, s)"
  using alloc_frames_loop_spec [of s 0 0 n] assms
  by (auto simp: alloc_frames_def frames_set_ref_count_eq free_run_def)

text \<open>C13. \<open>alloc_frames n\<close> with \<open>n > 0\<close> finds the first run of \<open>n\<close> consecutive free frames of the
  pool. If there is one, it returns \<open>SUCCES\<close> with the address of the run's first entry, gives
  exactly these frames the reference count 1 and leaves every other count alone. If there is
  none, it returns \<open>FAILED\<close> and changes nothing.\<close>

theorem alloc_frames_first_fit:
  assumes "frames_ok s" and "0 < n"
  shows "(\<exists>i s'. first_run s n i \<and> alloc_frames (int n) s = (SUCCES, Some (get_frame_at (of_nat i)), s') \<and>
      (\<forall>j \<le> 0x100000. rc s' j = (if i \<le> j \<and> j < i + n then 1 else rc s j)) \<and> nframes s' = nframes s) \<or>
    (\<forall>i. i + n \<le> nframes s \<longrightarrow> \<not> free_run s i n) \<and> alloc_frames (int n) s = (FAILED, None, s)"
proof -
  have run: "rc (s\<lparr>mem := set_run i n 1 (mem s)\<rparr>) j = (if i \<le> j \<and> j < i + n then 1 else rc s j)"
    if "first_run s n i" "j \<le> 0x100000" for i j
    by (rule rc_set_run) (use that assms(1) in \<open>auto simp: first_run_def frames_ok_def\<close>)
  show ?thesis
    using alloc_frames_cases [OF assms] run by (auto simp: nframes_def)
qed

subsection \<open>Allocators of frames\<close>

text \<open>What both allocators promise: the first run of free frames of a fixed length, or nothing.\<close>

locale frame_allocator =
  fixes run_length :: nat and alloc :: "'a kmem_scheme \<Rightarrow> u32 option \<times> 'a kmem_scheme"
  assumes run_nonempty: "0 < run_length"
    and alloc_some: "frames_ok s \<Longrightarrow> alloc s = (Some f, s') \<Longrightarrow>
      \<exists>i. first_run s run_length i \<and> f = get_frame_at (of_nat i) \<and> s' = s\<lparr>mem := set_run i run_length 1 (mem s)\<rparr>"
    and alloc_none: "frames_ok s \<Longrightarrow> alloc s = (None, s') \<Longrightarrow>
      s' = s \<and> (\<forall>i. i + run_length \<le> nframes s \<longrightarrow> \<not> free_run s i run_length)"
begin

lemma succeeds_iff:
  assumes "frames_ok s"
  shows "fst (alloc s) \<noteq> None \<longleftrightarrow> (\<exists>i. i + run_length \<le> nframes s \<and> free_run s i run_length)"
proof -
  obtain r s' where a: "alloc s = (r, s')" by (cases "alloc s")
  then show ?thesis using alloc_none [OF assms, of s'] alloc_some [OF assms, of _ s'] by (cases r) (auto simp: first_run_def)
qed

lemma counts:
  assumes "frames_ok s" and "alloc s = (Some f, s')"
  obtains i where "first_run s run_length i" "f = get_frame_at (of_nat i)" "nframes s' = nframes s"
    "\<And>j. j \<le> 0x100000 \<Longrightarrow> rc s' j = (if i \<le> j \<and> j < i + run_length then 1 else rc s j)"
proof -
  obtain i where i: "first_run s run_length i" "f = get_frame_at (of_nat i)" "s' = s\<lparr>mem := set_run i run_length 1 (mem s)\<rparr>"
    using alloc_some [OF assms] by blast
  then have "i + run_length \<le> 0x100000" using assms(1) by (simp add: first_run_def frames_ok_def)
  then show ?thesis using i rc_set_run [where i = i and n = run_length and s = s and v = 1] by (intro that [of i]) (auto simp: nframes_def)
qed

lemma used_grows:
  assumes "frames_ok s" and "alloc s = (Some f, s')"
  shows "card {j. j < nframes s' \<and> rc s' j = 0} + run_length = card {j. j < nframes s \<and> rc s j = 0}"
proof -
  obtain i where i: "first_run s run_length i" "nframes s' = nframes s"
    "\<And>j. j \<le> 0x100000 \<Longrightarrow> rc s' j = (if i \<le> j \<and> j < i + run_length then 1 else rc s j)" using counts [OF assms] by metis
  have le: "j < nframes s \<Longrightarrow> j \<le> 0x100000" for j using assms(1) by (simp add: frames_ok_def)
  have "{j. j < nframes s \<and> rc s j = 0} = {j. j < nframes s' \<and> rc s' j = 0} \<union> {i..<i + run_length}"
  proof (rule set_eqI, cases)
    fix j assume "j \<in> {i..<i + run_length}"
    then show "j \<in> {j. j < nframes s \<and> rc s j = 0} \<longleftrightarrow> j \<in> {j. j < nframes s' \<and> rc s' j = 0} \<union> {i..<i + run_length}"
      using i(1) by (auto simp: first_run_def free_run_def)
  next
    fix j assume "j \<notin> {i..<i + run_length}"
    then show "j \<in> {j. j < nframes s \<and> rc s j = 0} \<longleftrightarrow> j \<in> {j. j < nframes s' \<and> rc s' j = 0} \<union> {i..<i + run_length}"
      using i(2) i(3) [of j] le [of j] by auto
  qed
  moreover have "{j. j < nframes s' \<and> rc s' j = 0} \<inter> {i..<i + run_length} = {}" using i le by auto
  ultimately show ?thesis by (simp add: card_Un_disjoint)
qed

end

lemma free_run_one: "free_run s i (Suc 0) \<longleftrightarrow> rc s i = 0"
  by (auto simp: free_run_def le_less_Suc_eq)

lemma alloc_frame_loop_spec:
  assumes "frames_ok s" and "c \<le> nframes s" and "\<forall>j < c. rc s j \<noteq> 0"
  shows "(\<exists>i. first_run s 1 i \<and> alloc_frame_loop (of_nat c) s =
      (get_frame_at (of_nat i), s\<lparr>mem := store32 (mem s) (of_nat (fa i)) 1\<rparr>)) \<or>
    (\<forall>i < nframes s. rc s i \<noteq> 0) \<and> alloc_frame_loop (of_nat c) s = (NULL, s)"
  using assms
proof (induction "nframes s - c" arbitrary: c)
  case 0
  then have "alloc_frame_loop (of_nat c) s = (NULL, s)" by (subst alloc_frame_loop.simps) (simp add: nframes_def)
  then show ?case using 0 by auto
next
  case (Suc d)
  then have c: "c < nframes s" "d = nframes s - Suc c" "Suc c \<le> nframes s" by auto
  have le: "c < 0x100000" using c Suc.prems(1) by (simp add: frames_ok_def)
  have guard: "of_nat c < frames_count (g_frames_context s)"
    using c le by (simp add: nframes_def word_less_nat_alt unat_of_nat_32)
  show ?case
  proof (cases "rc s c = 0")
    case True
    then have "alloc_frame_loop (of_nat c) s = (get_frame_at (of_nat c), s\<lparr>mem := store32 (mem s) (of_nat (fa c)) 1\<rparr>)"
      using guard by (subst alloc_frame_loop.simps) (simp add: rc_def fr_ref_count_set_nat)
    moreover have "first_run s 1 c" using True c Suc.prems by (simp add: first_run_def free_run_one)
    ultimately show ?thesis by blast
  next
    case False
    then have "alloc_frame_loop (of_nat c) s = alloc_frame_loop (of_nat (Suc c)) s"
      using guard by (subst alloc_frame_loop.simps) (simp add: rc_def add.commute)
    then show ?thesis using Suc.hyps(1) [OF c(2) Suc.prems(1) c(3)] Suc.prems(3) False less_Suc_eq by auto
  qed
qed

lemmas alloc_frame_cases = alloc_frame_loop_spec [of s 0 for s, simplified, folded alloc_frame_def]

text \<open>A null pointer, and a return code other than \<open>SUCCES\<close>, mean that there is no result.\<close>

definition frame_result :: "u32 \<times> 'a kmem_scheme \<Rightarrow> u32 option \<times> 'a kmem_scheme" where
  "frame_result r = (if fst r = NULL then None else Some (fst r), snd r)"

interpretation single: frame_allocator 1 "\<lambda>s. frame_result (alloc_frame s)"
proof
  fix s s' :: "'a kmem_scheme" and f
  assume ok: "frames_ok s"
  have nn: "get_frame_at (of_nat i) \<noteq> NULL" if "first_run s 1 i" for i
    using frame_not_null [of i] that ok by (simp add: first_run_def frames_ok_def)
  show "\<exists>i. first_run s 1 i \<and> f = get_frame_at (of_nat i) \<and> s' = s\<lparr>mem := set_run i 1 1 (mem s)\<rparr>"
    if "frame_result (alloc_frame s) = (Some f, s')"
    using alloc_frame_cases [OF ok] that nn by (auto simp: frame_result_def split: if_splits)
  show "s' = s \<and> (\<forall>i. i + 1 \<le> nframes s \<longrightarrow> \<not> free_run s i 1)" if "frame_result (alloc_frame s) = (None, s')"
    using alloc_frame_cases [OF ok] that nn by (auto simp: frame_result_def free_run_one split: if_splits)
qed simp

definition frames_result :: "retv \<times> u32 option \<times> 'a kmem_scheme \<Rightarrow> u32 option \<times> 'a kmem_scheme" where
  "frames_result r = (if fst r = SUCCES then fst (snd r) else None, snd (snd r))"

interpretation several: frame_allocator "Suc n" "\<lambda>s. frames_result (alloc_frames (int (Suc n)) s)" for n
proof
  fix s s' :: "'a kmem_scheme" and f
  assume ok: "frames_ok s"
  show "\<exists>i. first_run s (Suc n) i \<and> f = get_frame_at (of_nat i) \<and> s' = s\<lparr>mem := set_run i (Suc n) 1 (mem s)\<rparr>"
    if "frames_result (alloc_frames (int (Suc n)) s) = (Some f, s')"
    using alloc_frames_cases [OF ok, of "Suc n"] that by (auto simp: frames_result_def split: if_splits)
  show "s' = s \<and> (\<forall>i. i + Suc n \<le> nframes s \<longrightarrow> \<not> free_run s i (Suc n))"
    if "frames_result (alloc_frames (int (Suc n)) s) = (None, s')"
    using alloc_frames_cases [OF ok, of "Suc n"] that by (auto simp: frames_result_def split: if_splits)
qed simp

text \<open>C14. \<open>alloc_frame\<close> returns \<open>NULL\<close> and changes nothing if no frame is free. Otherwise it returns the entry of the
  first free frame, with the count 1 and one free frame less in the pool, and \<open>free_frame\<close> of the result
  brings back exactly the state before the allocation.\<close>

theorem alloc_frame_free_frame:
  assumes "frames_ok s"
  shows "(\<forall>i < nframes s. rc s i \<noteq> 0) \<and> alloc_frame s = (NULL, s) \<or>
    (\<exists>i s'. first_run s 1 i \<and> alloc_frame s = (get_frame_at (of_nat i), s') \<and> get_frame_at (of_nat i) \<noteq> NULL \<and>
      (\<forall>j \<le> 0x100000. rc s' j = (if j = i then 1 else rc s j)) \<and>
      card {j. j < nframes s' \<and> rc s' j = 0} + 1 = card {j. j < nframes s \<and> rc s j = 0} \<and>
      free_frame (get_frame_at (of_nat i)) s' = Some s)"
proof -
  have "\<exists>i s'. first_run s 1 i \<and> alloc_frame s = (get_frame_at (of_nat i), s') \<and> get_frame_at (of_nat i) \<noteq> NULL \<and>
      (\<forall>j \<le> 0x100000. rc s' j = (if j = i then 1 else rc s j)) \<and>
      card {j. j < nframes s' \<and> rc s' j = 0} + 1 = card {j. j < nframes s \<and> rc s j = 0} \<and>
      free_frame (get_frame_at (of_nat i)) s' = Some s"
    if i: "first_run s 1 i" and run: "alloc_frame s = (get_frame_at (of_nat i), s\<lparr>mem := store32 (mem s) (of_nat (fa i)) 1\<rparr>)" for i
  proof -
    let ?s = "s\<lparr>mem := store32 (mem s) (of_nat (fa i)) 1\<rparr>"
    have le: "i \<le> 0x100000" and zero: "load32 (mem s) (of_nat (fa i)) = 0"
      using i assms by (simp_all add: first_run_def frames_ok_def free_run_one rc_load)
    note nn = frame_not_null [OF le]
    have "frame_result (alloc_frame s) = (Some (get_frame_at (of_nat i)), ?s)" using run nn by (simp add: frame_result_def)
    from single.used_grows [OF assms this]
    have "card {j. j < nframes ?s \<and> rc ?s j = 0} + 1 = card {j. j < nframes s \<and> rc s j = 0}" .
    moreover have "\<forall>j \<le> 0x100000. rc ?s j = (if j = i then 1 else rc s j)"
      using rc_set [OF le, of _ 1 s] by (simp add: fr_ref_count_set_nat)
    moreover have "free_frame (get_frame_at (of_nat i)) ?s = Some s"
      using store32_load32 [of "mem s" "of_nat (fa i)"] zero
      by (simp add: free_frame_def fr_ref_count_set_def st_def fr_ref_count_def ld_def get_frame_at_nat store32_store32 INT_MIN_def Let_def)
    ultimately show ?thesis using i run nn by blast
  qed
  then show ?thesis using alloc_frame_cases [OF assms] unfolding One_nat_def by blast
qed

end
