(* ===== verification/PageTables.thy ===== *)
theory PageTables
  imports Pages FrameProps
begin

text \<open>
  The paging structures as arrays. The kernel keeps the page table of directory entry
  \<open>k\<close> at \<open>0xC0400000 + 4096 * k\<close>, so that the entry of virtual page number \<open>p\<close> is the
  word at \<open>0xC0400000 + 4 * p\<close>: the page tables together are one array indexed by page
  number. This theory gives the directory, the page tables, the frame array and the memory
  below the kernel as four separate views of memory, with a read-after-write lemma for
  each pair of them, and the invariant of the page directory.
\<close>

subsection \<open>Bit fields\<close>

lemma bit_set_bits [bit_simps]:
  "bit (set_bits i w f v) n \<longleftrightarrow> n < 32 \<and> (if i \<le> n \<and> n < i + w then bit f (n - i) else bit v n)"
  by (auto simp: set_bits_def bit_simps)

lemma bit_get_bits [bit_simps]: "bit (get_bits i w v) n \<longleftrightarrow> n < w \<and> bit v (i + n)"
  by (auto simp: get_bits_def bit_simps)

lemma and_single_bit: "(v :: u32) AND push_bit n 1 = 0 \<longleftrightarrow> \<not> bit v n"
  by (simp add: bit_iff_and_push_bit_not_eq_0)

lemma PF_tests:
  "v AND PF_PRES = 0 \<longleftrightarrow> \<not> bit v 0" "v AND PF_4M = 0 \<longleftrightarrow> \<not> bit v 7"
  using and_single_bit [of v 0] and_single_bit [of v 7] by (simp_all add: pf_flags)

lemma bit_pres_rw: "bit (PF_PRES OR PF_RW) n \<longleftrightarrow> n < 2"
proof -
  have "PF_PRES OR PF_RW = mask 2" by (simp add: pf_flags mask_eq_exp_minus_1)
  then show ?thesis by (auto simp: bit_simps)
qed

lemma pde_flags_set_bits:
  "bit (pde_flags_set (PF_PRES OR PF_RW) v) 0" "\<not> bit (pde_flags_set (PF_PRES OR PF_RW) v) 7"
  by (simp_all add: pde_flags_set_def bit_set_bits bit_pres_rw del: bit_or_iff)

lemma pde_flags_set_ptaddr: "pde_ptaddr (pde_flags_set f v) = pde_ptaddr v"
  by (rule bit_word_eqI) (auto simp: pde_ptaddr_def pde_flags_set_def bit_simps)

lemma mem_upd: "mem (s\<lparr>mem := m\<rparr>) = m"
  by simp

subsection \<open>Views of memory\<close>

definition pdn :: "'a kmem_scheme \<Rightarrow> nat" where
  "pdn s = unat (f_vaddr (g_frame_page_directory s))"

definition pde_w :: "'a kmem_scheme \<Rightarrow> nat \<Rightarrow> u32" where
  "pde_w s k = load32 (mem s) (of_nat (pdn s + 4 * k))"

definition pta :: "nat \<Rightarrow> nat" where
  "pta p = 0xC0400000 + 4 * p"

definition pte_w :: "'a machine_scheme \<Rightarrow> nat \<Rightarrow> u32" where
  "pte_w s p = load32 (mem s) (of_nat (pta p))"

definition fw :: "'a machine_scheme \<Rightarrow> nat \<Rightarrow> nat \<Rightarrow> u32" where
  "fw s i off = load32 (mem s) (of_nat (fa i + off))"

definition low :: "'a machine_scheme \<Rightarrow> nat \<Rightarrow> u8" where
  "low s a = mem s (of_nat a)"

lemma rc_fw: "rc s i = fw s i 0"
  by (simp add: rc_load fw_def)

text \<open>The page directory array lies in the kernel image, below the page tables.\<close>

definition pd_placed :: "'a kmem_scheme \<Rightarrow> bool" where
  "pd_placed s \<longleftrightarrow> 0xC0100000 \<le> pdn s \<and> pdn s + 4096 \<le> 0xC0400000"

definition st_pde :: "nat \<Rightarrow> u32 \<Rightarrow> 'a kmem_scheme \<Rightarrow> 'a kmem_scheme" where
  "st_pde k v s = s\<lparr>mem := store32 (mem s) (of_nat (pdn s + 4 * k)) v\<rparr>"

definition st_pte :: "nat \<Rightarrow> u32 \<Rightarrow> 'a kmem_scheme \<Rightarrow> 'a kmem_scheme" where
  "st_pte p v s = s\<lparr>mem := store32 (mem s) (of_nat (pta p)) v\<rparr>"

definition st_fw :: "nat \<Rightarrow> nat \<Rightarrow> u32 \<Rightarrow> 'a kmem_scheme \<Rightarrow> 'a kmem_scheme" where
  "st_fw i off v s = s\<lparr>mem := store32 (mem s) (of_nat (fa i + off)) v\<rparr>"

lemmas views = pde_w_def pte_w_def fw_def low_def st_pde_def st_pte_def st_fw_def

lemma st_fields [simp, frame_simps]:
  "g_frame_page_directory (st_pde k v s) = g_frame_page_directory s"
  "g_frame_page_directory (st_pte p v s) = g_frame_page_directory s"
  "g_frame_page_directory (st_fw i off v s) = g_frame_page_directory s"
  "g_frames_context (st_pde k v s) = g_frames_context s"
  "g_frames_context (st_pte p v s) = g_frames_context s"
  "g_frames_context (st_fw i off v s) = g_frames_context s"
  "g_kds_size (st_pde k v s) = g_kds_size s"
  "g_kds_size (st_pte p v s) = g_kds_size s"
  "g_kds_size (st_fw i off v s) = g_kds_size s"
  "kmem.more (st_pde k v s) = kmem.more s"
  "kmem.more (st_pte p v s) = kmem.more s"
  "kmem.more (st_fw i off v s) = kmem.more s"
  by (simp_all add: st_pde_def st_pte_def st_fw_def)

lemma pdn_st [simp]: "pdn (st_pde k v s) = pdn s" "pdn (st_pte p v s) = pdn s" "pdn (st_fw i off v s) = pdn s"
  by (simp_all add: pdn_def)

lemma pd_placed_st [simp]:
  "pd_placed (st_pde k v s) = pd_placed s" "pd_placed (st_pte p v s) = pd_placed s"
  "pd_placed (st_fw i off v s) = pd_placed s"
  by (simp_all add: pd_placed_def)

lemma view_st_pde [mem_simps]:
  assumes "pd_placed s" and "k < 1024"
  shows "k' < 1024 \<Longrightarrow> pde_w (st_pde k v s) k' = (if k' = k then v else pde_w s k')"
    and "p < 0x100000 \<Longrightarrow> pte_w (st_pde k v s) p = pte_w s p"
    and "i \<le> 0x100000 \<Longrightarrow> off \<le> 8 \<Longrightarrow> fw (st_pde k v s) i off = fw s i off"
    and "a < 0xC0000000 \<Longrightarrow> low (st_pde k v s) a = low s a"
proof -
  have pd: "3222274048 \<le> pdn s" "pdn s + 4096 \<le> 3225419776" using assms(1) by (simp_all add: pd_placed_def)
  show "pde_w (st_pde k v s) k' = (if k' = k then v else pde_w s k')" if "k' < 1024"
  proof (cases "k' = k")
    case False
    have "load32 (store32 (mem s) (of_nat (pdn s + 4 * k)) v) (of_nat (pdn s + 4 * k')) =
        load32 (mem s) (of_nat (pdn s + 4 * k'))"
      by (rule load32_store32_nat) (use False that assms(2) pd in auto)
    with False show ?thesis by (simp add: pde_w_def st_pde_def pdn_def)
  qed (simp add: pde_w_def st_pde_def pdn_def)
  show "pte_w (st_pde k v s) p = pte_w s p" if "p < 0x100000"
    unfolding pte_w_def st_pde_def
    by (simp only: mem_upd, rule load32_store32_nat) (use that assms(2) pd in \<open>auto simp: pta_def\<close>)
  show "fw (st_pde k v s) i off = fw s i off" if "i \<le> 0x100000" "off \<le> 8"
    unfolding fw_def st_pde_def
    by (simp only: mem_upd, rule load32_store32_nat) (use that assms(2) pd in \<open>auto simp: fa_def\<close>)
  show "low (st_pde k v s) a = low s a" if "a < 0xC0000000"
    unfolding low_def st_pde_def
    by (simp only: mem_upd, rule store32_nat_other) (use that assms(2) pd in auto)
qed

lemma view_st_pte [mem_simps]:
  assumes "pd_placed s" and "p < 0x100000"
  shows "k < 1024 \<Longrightarrow> pde_w (st_pte p v s) k = pde_w s k"
    and "p' < 0x100000 \<Longrightarrow> pte_w (st_pte p v s) p' = (if p' = p then v else pte_w s p')"
    and "i \<le> 0x100000 \<Longrightarrow> off \<le> 8 \<Longrightarrow> fw (st_pte p v s) i off = fw s i off"
    and "a < 0xC0000000 \<Longrightarrow> low (st_pte p v s) a = low s a"
proof -
  have pd: "3222274048 \<le> pdn s" "pdn s + 4096 \<le> 3225419776" using assms(1) by (simp_all add: pd_placed_def)
  have pdn: "pdn (s\<lparr>mem := m\<rparr>) = pdn s" for m by (simp add: pdn_def)
  show "pde_w (st_pte p v s) k = pde_w s k" if "k < 1024"
    unfolding pde_w_def st_pte_def pdn
    by (simp only: mem_upd, rule load32_store32_nat) (use that assms(2) pd in \<open>auto simp: pta_def\<close>)
  show "pte_w (st_pte p v s) p' = (if p' = p then v else pte_w s p')" if "p' < 0x100000"
  proof (cases "p' = p")
    case False
    have "load32 (store32 (mem s) (of_nat (pta p)) v) (of_nat (pta p')) = load32 (mem s) (of_nat (pta p'))"
      by (rule load32_store32_nat) (use False that assms(2) in \<open>auto simp: pta_def\<close>)
    with False show ?thesis by (simp add: pte_w_def st_pte_def)
  qed (simp add: pte_w_def st_pte_def)
  show "fw (st_pte p v s) i off = fw s i off" if "i \<le> 0x100000" "off \<le> 8"
    unfolding fw_def st_pte_def
    by (simp only: mem_upd, rule load32_store32_nat) (use that assms(2) in \<open>auto simp: fa_def pta_def\<close>)
  show "low (st_pte p v s) a = low s a" if "a < 0xC0000000"
    unfolding low_def st_pte_def
    by (simp only: mem_upd, rule store32_nat_other) (use that assms(2) in \<open>auto simp: pta_def\<close>)
qed

definition word_offsets :: "nat set" where
  "word_offsets = {0, 4, 8}"

lemma view_st_fw [mem_simps]:
  assumes "pd_placed s" and "i \<le> 0x100000" and "off \<in> word_offsets"
  shows "k < 1024 \<Longrightarrow> pde_w (st_fw i off v s) k = pde_w s k"
    and "p < 0x100000 \<Longrightarrow> pte_w (st_fw i off v s) p = pte_w s p"
    and "i' \<le> 0x100000 \<Longrightarrow> off' \<in> word_offsets \<Longrightarrow>
      fw (st_fw i off v s) i' off' = (if i' = i \<and> off' = off then v else fw s i' off')"
    and "a < 0xC0000000 \<Longrightarrow> low (st_fw i off v s) a = low s a"
proof -
  have pd: "3222274048 \<le> pdn s" "pdn s + 4096 \<le> 3225419776" using assms(1) by (simp_all add: pd_placed_def)
  have pdn: "pdn (s\<lparr>mem := m\<rparr>) = pdn s" for m by (simp add: pdn_def)
  have off: "off \<le> 8" using assms(3) by (auto simp: word_offsets_def)
  show "pde_w (st_fw i off v s) k = pde_w s k" if "k < 1024"
    unfolding pde_w_def st_fw_def pdn
    by (simp only: mem_upd, rule load32_store32_nat) (use that assms(2) off pd in \<open>auto simp: fa_def\<close>)
  show "pte_w (st_fw i off v s) p = pte_w s p" if "p < 0x100000"
    unfolding pte_w_def st_fw_def
    by (simp only: mem_upd, rule load32_store32_nat) (use that assms(2) off in \<open>auto simp: fa_def pta_def\<close>)
  show "fw (st_fw i off v s) i' off' = (if i' = i \<and> off' = off then v else fw s i' off')"
    if "i' \<le> 0x100000" "off' \<in> word_offsets"
  proof (cases "i' = i \<and> off' = off")
    case False
    have off': "off' \<le> 8" using that(2) by (auto simp: word_offsets_def)
    have same: "off + 4 \<le> off' \<or> off' + 4 \<le> off" if "i = i'"
      using that False assms(3) \<open>off' \<in> word_offsets\<close> by (auto simp: word_offsets_def)
    have "fa i + off + 4 \<le> fa i' + off' \<or> fa i' + off' + 4 \<le> fa i + off"
      using off off' same unfolding fa_def by (cases i i' rule: linorder_cases) auto
    then have "load32 (store32 (mem s) (of_nat (fa i + off)) v) (of_nat (fa i' + off')) =
        load32 (mem s) (of_nat (fa i' + off'))"
      by (rule load32_store32_nat) (use that(1) assms(2) off off' in \<open>auto simp: fa_def\<close>)
    with False show ?thesis unfolding fw_def st_fw_def by (simp only: mem_upd if_False)
  qed (simp add: fw_def st_fw_def)
  show "low (st_fw i off v s) a = low s a" if "a < 0xC0000000"
    unfolding low_def st_fw_def
    by (simp only: mem_upd, rule store32_nat_other) (use that assms(2) off in \<open>auto simp: fa_def\<close>)
qed

subsection \<open>The invariant of the page directory\<close>

text \<open>
  The two kernel entries are present 4 MB pages. Every other entry leads to its own page
  table, whether it is present or not.
\<close>

definition kernel_pdes :: "nat set" where
  "kernel_pdes = {768, 769}"

definition paging_ok :: "'a kmem_scheme \<Rightarrow> bool" where
  "paging_ok s \<longleftrightarrow> pd_placed s \<and>
     (\<forall>k \<in> kernel_pdes. bit (pde_w s k) 0 \<and> bit (pde_w s k) 7) \<and>
     (\<forall>k < 1024. k \<notin> kernel_pdes \<longrightarrow> \<not> bit (pde_w s k) 7 \<and> pde_ptaddr (pde_w s k) = 0x400 + of_nat k)"

lemma kernel_pdes_lt: "k \<in> kernel_pdes \<Longrightarrow> k < 1024"
  by (auto simp: kernel_pdes_def)

lemma paging_okD:
  assumes "paging_ok s"
  shows "k \<in> kernel_pdes \<Longrightarrow> bit (pde_w s k) 0" and "k \<in> kernel_pdes \<Longrightarrow> bit (pde_w s k) 7"
    and "k < 1024 \<Longrightarrow> k \<notin> kernel_pdes \<Longrightarrow> \<not> bit (pde_w s k) 7"
    and "k < 1024 \<Longrightarrow> k \<notin> kernel_pdes \<Longrightarrow> pde_ptaddr (pde_w s k) = 0x400 + of_nat k"
  using assms unfolding paging_ok_def by blast+

lemma paging_ok_placed [simp, dest]: "paging_ok s \<Longrightarrow> pd_placed s"
  by (simp add: paging_ok_def)

lemma paging_ok_cong:
  assumes "paging_ok s" and "g_frame_page_directory s' = g_frame_page_directory s"
    and "\<And>k. k < 1024 \<Longrightarrow> pde_w s' k = pde_w s k"
  shows "paging_ok s'"
  using assms kernel_pdes_lt by (simp add: paging_ok_def pd_placed_def pdn_def)

text \<open>Cursors of the page with number \<open>p\<close>.\<close>

lemma cursors_of_page:
  assumes "p < 0x100000"
  shows "pde_cursor_of (of_nat (4096 * p)) = of_nat (p div 1024)"
    and "pte_cursor_of (of_nat (4096 * p)) = of_nat (p mod 1024)"
proof -
  have lt: "4096 * p < 4294967296" using assms by simp
  have "4096 * p div 4194304 = p div 1024" by (simp add: div_mult2_eq [of _ 4096 1024, simplified])
  then show pde: "pde_cursor_of (of_nat (4096 * p)) = of_nat (p div 1024)"
    using of_nat_div_32 [OF lt, of 4194304] by (simp add: pde_cursor_of_def FOUR_MB_def)
  have "4096 * p - p div 1024 * 4194304 = 4096 * (p mod 1024)"
    by (simp add: minus_div_mult_eq_mod [symmetric] algebra_simps)
  moreover have "p div 1024 * 4194304 \<le> 4096 * p" using div_times_less_eq_dividend [of p 1024] by simp
  ultimately have "of_nat (4096 * p) - of_nat (p div 1024) * 4194304 = (of_nat (4096 * (p mod 1024)) :: u32)"
    by (metis of_nat_diff of_nat_mult of_nat_numeral)
  moreover have "4096 * (p mod 1024) < 4294967296" by (meson le_less_trans lt mod_less_eq_dividend mult_le_mono2)
  ultimately show "pte_cursor_of (of_nat (4096 * p)) = of_nat (p mod 1024)"
    using of_nat_div_32 [of "4096 * (p mod 1024)" 4096] unfolding pte_cursor_of_def pde
    by (simp add: FOUR_MB_def FRAME_SIZE_def)
qed

lemma pte_address:
  assumes "p < 0x100000" and "pde_ptaddr v = 0x400 + of_nat (p div 1024)"
  shows "PDE_PTADDR_TO_VADDR (pde_ptaddr v) + 4 * of_nat (p mod 1024) = of_nat (pta p)"
proof -
  obtain q r where qr: "p div 1024 = q" "p mod 1024 = r" by blast
  with div_mult_mod_eq [of p 1024] have "p = q * 1024 + r" by simp
  then have "pta p = 0xC0000000 + 4096 * (0x400 + p div 1024) + 4 * (p mod 1024)"
    unfolding pta_def qr by simp
  then have "(of_nat (pta p) :: u32) = 0xC0000000 + 4096 * (0x400 + of_nat (p div 1024)) + 4 * of_nat (p mod 1024)"
    by simp
  then show ?thesis
    by (simp add: PDE_PTADDR_TO_VADDR_def SYSTEM_ADDR_BASE_def assms(2) push_bit_eq_mult algebra_simps)
qed

end
