(* ===== verification/MapProps.thy ===== *)
theory MapProps
  imports PageTables
begin

text \<open>
  What \<open>map_pages\<close> does to the paging structures: which pages it maps, when it fails, and what
  it leaves alone.
\<close>

subsection \<open>Diagnostics\<close>

lemma render_pte_failed:
  assumes "sint a \<noteq> INT_MIN" "sint b \<noteq> INT_MIN" "sint c \<noteq> INT_MIN"
  shows "render (''map_pages failed: pde %d, pte %d pte->value: %b'' @ [CHR 0x0A]) [VInt a, VInt b, VInt c] \<noteq> None"
  using assms by (simp add: render_var_def out_int_def render_nbr_def)

lemma render_pde_failed:
  assumes "sint a \<noteq> INT_MIN" "sint b \<noteq> INT_MIN"
  shows "render (''map_pages failed: pde %d pde->value %b'' @ [CHR 0x0A]) [VInt a, VInt b] \<noteq> None"
  using assms by (simp add: render_var_def out_int_def render_nbr_def)

lemma render_sbrk:
  assumes "sint a \<noteq> INT_MIN"
  shows "render (''sbrk: %d'' @ [CHR 0x0A]) [VInt a] \<noteq> None"
  using assms by (simp add: render_var_def out_int_def render_nbr_def)

subsection \<open>One page\<close>

lemma address_rules:
  assumes "pdbr = g_frame_page_directory s"
  shows "pde_at pdbr (of_nat k) = of_nat (pdn s + 4 * k)"
    and "ld (of_nat (pdn s + 4 * k)) s = pde_w s k"
    and "st (of_nat (pdn s + 4 * k)) v s = st_pde k v s"
    and "ld (of_nat (pta p)) s = pte_w s p"
    and "st (of_nat (pta p)) v s = st_pte p v s"
    and "fr_ref_count (get_frame_at (of_nat i)) s = fw s i 0"
    and "fr_addr (get_frame_at (of_nat i)) s = fw s i 4"
    and "fr_ref_count_set (get_frame_at (of_nat i)) v s = st_fw i 0 v s"
    and "fr_vaddr_set (get_frame_at (of_nat i)) v s = st_fw i 8 v s"
  using assms
  by (simp_all add: pde_at_def pdn_def ld_def st_def pde_w_def pte_w_def st_pde_def st_pte_def fr_ref_count_def
      fr_addr_def fr_ref_count_set_def fr_vaddr_set_def get_frame_at_nat fw_def st_fw_def)

definition present_pde :: "nat \<Rightarrow> 'a kmem_scheme \<Rightarrow> 'a kmem_scheme" where
  "present_pde k s =
     (if bit (pde_w s k) 0 then s else st_pde k (pde_flags_set (PF_PRES OR PF_RW) (pde_w s k)) s)"

definition map_entry :: "u32 \<Rightarrow> u32 \<Rightarrow> u32 \<Rightarrow> u32" where
  "map_entry paddr flags v = pte_flags_set flags (pte_addr_set (PTE_ADDR_HIGH paddr) v)"

definition map_one :: "nat \<Rightarrow> nat \<Rightarrow> u32 \<Rightarrow> 'a kmem_scheme \<Rightarrow> 'a kmem_scheme" where
  "map_one p i flags s =
     (let s = present_pde (p div 1024) s;
          s = st_pte p (map_entry (fw s i 4) flags (pte_w s p)) s;
          s = s\<lparr>invlpg_log := invlpg_log s @ [of_nat (pta p)]\<rparr>;
          s = st_fw i 0 (fw s i 0 + 1) s
      in st_fw i 8 (of_nat (4096 * p)) s)"

lemma present_pde_views:
  assumes "paging_ok s" and "k < 1024" and "k \<notin> kernel_pdes"
  shows "bit (pde_w (present_pde k s) k) 0" and "\<not> bit (pde_w (present_pde k s) k) 7"
    and "pde_ptaddr (pde_w (present_pde k s) k) = 0x400 + of_nat k"
    and "k' < 1024 \<Longrightarrow> k' \<noteq> k \<Longrightarrow> pde_w (present_pde k s) k' = pde_w s k'"
    and "p < 0x100000 \<Longrightarrow> pte_w (present_pde k s) p = pte_w s p"
    and "i \<le> 0x100000 \<Longrightarrow> off \<le> 8 \<Longrightarrow> fw (present_pde k s) i off = fw s i off"
    and "a < 0xC0000000 \<Longrightarrow> low (present_pde k s) a = low s a"
    and "g_frame_page_directory (present_pde k s) = g_frame_page_directory s"
    and "paging_ok (present_pde k s)"
proof -
  have pd: "pd_placed s" using assms(1) by simp
  have ok: "\<not> bit (pde_w s k) 7" "pde_ptaddr (pde_w s k) = 0x400 + of_nat k"
    using paging_okD [OF assms(1)] assms(2,3) by blast+
  have self: "pde_w (present_pde k s) k =
      (if bit (pde_w s k) 0 then pde_w s k else pde_flags_set (PF_PRES OR PF_RW) (pde_w s k))"
    unfolding present_pde_def by (simp add: view_st_pde(1) [OF pd assms(2,2)])
  show 1: "bit (pde_w (present_pde k s) k) 0"
    unfolding self by (simp only: pde_flags_set_bits split: if_split) blast
  show 2: "\<not> bit (pde_w (present_pde k s) k) 7"
    unfolding self using ok(1) by (simp only: pde_flags_set_bits if_cancel split: if_split) blast
  show 3: "pde_ptaddr (pde_w (present_pde k s) k) = 0x400 + of_nat k"
    unfolding self using ok(2) by (simp only: pde_flags_set_ptaddr split: if_split) blast
  show 4: "pde_w (present_pde k s) k' = pde_w s k'" if "k' < 1024" "k' \<noteq> k" for k'
    using assms(2) that by (simp add: present_pde_def view_st_pde [OF pd])
  show "pte_w (present_pde k s) p = pte_w s p" if "p < 0x100000"
    using assms(2) that by (simp add: present_pde_def view_st_pde [OF pd])
  show "fw (present_pde k s) i off = fw s i off" if "i \<le> 0x100000" "off \<le> 8"
    using assms(2) that by (simp add: present_pde_def view_st_pde [OF pd])
  show "low (present_pde k s) a = low s a" if "a < 0xC0000000"
    using assms(2) that by (simp add: present_pde_def view_st_pde [OF pd])
  show 5: "g_frame_page_directory (present_pde k s) = g_frame_page_directory s"
    by (simp add: present_pde_def)
  show "paging_ok (present_pde k s)"
    unfolding paging_ok_def
  proof (intro conjI allI impI ballI)
    show "pd_placed (present_pde k s)" using pd 5 by (simp add: pd_placed_def pdn_def)
    fix k' assume k': "k' \<in> kernel_pdes"
    with assms(3) have "pde_w (present_pde k s) k' = pde_w s k'" by (auto intro: 4 kernel_pdes_lt)
    with k' show "bit (pde_w (present_pde k s) k') 0" "bit (pde_w (present_pde k s) k') 7"
      using paging_okD(1,2) [OF assms(1)] by simp_all
  next
    fix k' :: nat assume k': "k' < 1024" "k' \<notin> kernel_pdes"
    show "\<not> bit (pde_w (present_pde k s) k') 7" "pde_ptaddr (pde_w (present_pde k s) k') = 0x400 + of_nat k'"
      using 2 3 4 [OF k'(1)] paging_okD(3,4) [OF assms(1) k'] by (cases "k' = k"; simp)+
  qed
qed

definition mappable :: "'a kmem_scheme \<Rightarrow> nat \<Rightarrow> bool" where
  "mappable s p \<longleftrightarrow> p div 1024 \<notin> kernel_pdes \<and> \<not> bit (pte_w s p) 0"

lemma log_upd_views [simp]:
  "pde_w (s\<lparr>invlpg_log := l\<rparr>) k = pde_w s k" "pte_w (s\<lparr>invlpg_log := l\<rparr>) p = pte_w s p"
  "fw (s\<lparr>invlpg_log := l\<rparr>) i off = fw s i off" "low (s\<lparr>invlpg_log := l\<rparr>) a = low s a"
  "pd_placed (s\<lparr>invlpg_log := l\<rparr>) = pd_placed s" "pdn (s\<lparr>invlpg_log := l\<rparr>) = pdn s"
  by (simp_all add: pde_w_def pte_w_def fw_def low_def pd_placed_def pdn_def)

lemma out_upd_views [simp]:
  "pde_w (s\<lparr>trace := t, disp_bytes := d\<rparr>) k = pde_w s k"
  "pte_w (s\<lparr>trace := t, disp_bytes := d\<rparr>) p = pte_w s p"
  "fw (s\<lparr>trace := t, disp_bytes := d\<rparr>) i off = fw s i off"
  "low (s\<lparr>trace := t, disp_bytes := d\<rparr>) a = low s a"
  "pdn (s\<lparr>trace := t, disp_bytes := d\<rparr>) = pdn s"
  by (simp_all add: pde_w_def pte_w_def fw_def low_def pdn_def)

lemma map_one_views:
  assumes ok: "paging_ok s" and p: "p < 0x100000" and pde: "p div 1024 \<notin> kernel_pdes" and i: "i \<le> 0x100000"
  shows "q < 0x100000 \<Longrightarrow> pte_w (map_one p i flags s) q =
      (if q = p then map_entry (fw s i 4) flags (pte_w s p) else pte_w s q)"
    and "j \<le> 0x100000 \<Longrightarrow> off \<in> word_offsets \<Longrightarrow> fw (map_one p i flags s) j off =
      (if j = i \<and> off = 0 then fw s i 0 + 1 else if j = i \<and> off = 8 then of_nat (4096 * p) else fw s j off)"
    and "a < 0xC0000000 \<Longrightarrow> low (map_one p i flags s) a = low s a"
    and "paging_ok (map_one p i flags s)"
    and "g_frame_page_directory (map_one p i flags s) = g_frame_page_directory s"
    and "bit (pde_w (map_one p i flags s) (p div 1024)) 0"
    and "k < 1024 \<Longrightarrow> k \<noteq> p div 1024 \<Longrightarrow> pde_w (map_one p i flags s) k = pde_w s k"
proof -
  have k: "p div 1024 < 1024" using p by simp
  note pv = present_pde_views [OF ok k pde]
  have pd: "pd_placed (present_pde (p div 1024) s)" using pv(9) by simp
  have offs: "0 \<in> word_offsets" "4 \<in> word_offsets" "8 \<in> word_offsets" by (simp_all add: word_offsets_def)
  have le8: "off \<le> 8" if "off \<in> word_offsets" for off using that by (auto simp: word_offsets_def)
  note rules = view_st_pte view_st_fw pv pd p i k offs map_one_def Let_def
  show "pte_w (map_one p i flags s) q = (if q = p then map_entry (fw s i 4) flags (pte_w s p) else pte_w s q)"
    if "q < 0x100000" using that by (simp add: rules)
  show "fw (map_one p i flags s) j off =
      (if j = i \<and> off = 0 then fw s i 0 + 1 else if j = i \<and> off = 8 then of_nat (4096 * p) else fw s j off)"
    if "j \<le> 0x100000" "off \<in> word_offsets" using that le8 [OF that(2)] by (auto simp: rules)
  show "low (map_one p i flags s) a = low s a" if "a < 0xC0000000" using that by (simp add: rules)
  have pdes: "pde_w (map_one p i flags s) k' = pde_w (present_pde (p div 1024) s) k'" if "k' < 1024" for k'
    using that by (simp add: rules)
  show fpd: "g_frame_page_directory (map_one p i flags s) = g_frame_page_directory s" by (simp add: rules)
  show "paging_ok (map_one p i flags s)"
    by (rule paging_ok_cong [OF pv(9)]) (simp_all add: fpd pv(8) pdes)
  show "bit (pde_w (map_one p i flags s) (p div 1024)) 0" using pdes [OF k] pv(1) by simp
  show "pde_w (map_one p i flags s) k' = pde_w s k'" if "k' < 1024" "k' \<noteq> p div 1024" for k'
    using that pdes pv(4) by simp
qed

subsection \<open>map\_pages\<close>

lemma map_store:
  assumes "i \<le> 0x100000" "pd_placed s" "p < 0x100000"
  shows "st_pte p (pte_flags_set flags (pte_w (st_pte p v s) p)) (st_pte p v s) = st_pte p (pte_flags_set flags v) s"
proof -
  have "store32 (store32 m a v) a w = store32 m a w" for m a v w
    by (auto simp: store32_def fun_eq_iff)
  then show ?thesis using assms by (simp add: view_st_pte) (simp add: st_pte_def)
qed

lemma map_pages_loop_step:
  assumes ok: "paging_ok s" and pdbr: "pdbr = g_frame_page_directory s" and p: "p < 0x100000"
    and i: "i \<le> 0x100000" and c: "cursor < n"
  shows "map_pages_loop pdbr (of_nat (4096 * p)) (get_frame_at (of_nat i)) n flags cursor s =
    (if p div 1024 \<in> kernel_pdes then do {
        (_, s) \<leftarrow> kprintf (''map_pages failed: pde %d pde->value %b'' @ [CHR 0x0A])
          [VInt (of_nat (p div 1024)), VInt (pde_w s (p div 1024))] s;
        Some (FAILED, s) }
     else if bit (pte_w s p) 0 then do {
        (_, s) \<leftarrow> kprintf (''map_pages failed: pde %d, pte %d pte->value: %b'' @ [CHR 0x0A])
          [VInt (of_nat (p div 1024)), VInt (of_nat (p mod 1024)), VInt (pte_w s p)] (present_pde (p div 1024) s);
        Some (FAILED, s) }
     else map_pages_loop pdbr (of_nat (4096 * Suc p)) (get_frame_at (of_nat (Suc i))) n flags (cursor + 1)
        (map_one p i flags s))"
proof -
  have k: "p div 1024 < 1024" using p by simp
  have pd: "pd_placed s" using ok by simp
  note cur = cursors_of_page [OF p]
  have addr: "f_vaddr pdbr + 4 * of_nat k = of_nat (pdn s + 4 * k)" for k using pdbr by (simp add: pdn_def)
  have pdbr': "pdbr = g_frame_page_directory (present_pde (p div 1024) s)"
    using pdbr by (simp add: present_pde_def)
  note here = address_rules(1-3) [OF pdbr]
  note there = address_rules(1-3) [OF pdbr']
  show ?thesis
  proof (cases "p div 1024 \<in> kernel_pdes")
    case True
    then show ?thesis
      using c paging_okD(1,2) [OF ok True]
      by (subst map_pages_loop.simps) (simp only: cur here Let_def PF_tests if_True simp_thms if_False)
  next
    case False
    note pv = present_pde_views [OF ok k False]
    have pdn': "pdn (present_pde (p div 1024) s) = pdn s" using pv(8) by (simp add: pdn_def)
    note there' = there [unfolded pdn']
    have pr: "(if \<not> bit (pde_w s (p div 1024)) 0 then st_pde (p div 1024) (pde_flags_set (PF_PRES OR PF_RW) (pde_w s (p div 1024))) s else s) = present_pde (p div 1024) s"
      by (simp add: present_pde_def)
    note pt = pte_address [OF p pv(3)]
    have pd': "pd_placed (present_pde (p div 1024) s)" using pv(9) by simp
    have nx: "of_nat (4096 * p) + FRAME_SIZE = of_nat (4096 * Suc p)" by (simp add: FRAME_SIZE_def)
    note s1 = map_store [OF i pd' p]
    have one: "fr_vaddr_set (get_frame_at (of_nat i)) (of_nat (4096 * p)) (fr_ref_count_set (get_frame_at (of_nat i)) (fr_ref_count (get_frame_at (of_nat i)) u + 1) u) = map_one p i flags s"
      if "u = native_flush_tlb_single (of_nat (pta p)) (st_pte p (pte_flags_set flags (pte_addr_set (PTE_ADDR_HIGH (fr_addr (get_frame_at (of_nat i)) (present_pde (p div 1024) s))) (pte_w s p))) (present_pde (p div 1024) s))" for u
      using that pv(5) p i
      by (simp add: map_one_def Let_def address_rules(6-9) native_flush_tlb_single_def map_entry_def address_rules(7))
    show ?thesis
      using c False pv(1,2) 
      by (subst map_pages_loop.simps)
        (simp only: cur here Let_def PF_tests if_True simp_thms if_False pr there' pt address_rules(4,5) s1
          nx get_frame_at_add one pv(5) [OF p])
  qed
qed

fun map_many :: "nat \<Rightarrow> nat \<Rightarrow> nat \<Rightarrow> u32 \<Rightarrow> 'a kmem_scheme \<Rightarrow> 'a kmem_scheme" where
  "map_many p i 0 flags s = s"
| "map_many p i (Suc n) flags s = map_many (Suc p) (Suc i) n flags (map_one p i flags s)"

lemma user_pde: "p < 0xC0000 \<Longrightarrow> p div 1024 \<notin> kernel_pdes"
  by (auto simp: kernel_pdes_def)

lemma page_pre:
  assumes "p + Suc n \<le> 0xC0000" and "i + Suc n \<le> 0x100000"
  shows "p < 0x100000" and "p div 1024 \<notin> kernel_pdes" and "i \<le> 0x100000"
  using assms user_pde [of p] by simp_all

lemma map_many_ok:
  assumes "paging_ok s" and "p + n \<le> 0xC0000" and "i + n \<le> 0x100000"
  shows "paging_ok (map_many p i n flags s)"
  using assms
proof (induction n arbitrary: p i s)
  case (Suc n)
  then have "paging_ok (map_one p i flags s)" by (intro map_one_views user_pde) auto
  with Suc show ?case by simp
qed simp

lemma map_many_pte:
  assumes "paging_ok s" and "p + n \<le> 0xC0000" and "i + n \<le> 0x100000" and "q < 0x100000"
  shows "pte_w (map_many p i n flags s) q =
      (if p \<le> q \<and> q < p + n then map_entry (fw s (i + (q - p)) 4) flags (pte_w s q) else pte_w s q)"
  using assms
proof (induction n arbitrary: p i s)
  case (Suc n)
  note pre = Suc.prems(1) page_pre [OF Suc.prems(2,3)]
  note one = map_one_views [OF pre, where flags = flags]
  have idx: "Suc i + (q - Suc p) = i + (q - p)" if "Suc p \<le> q" using that by auto
  have fw: "fw (map_one p i flags s) (i + (q - p)) 4 = fw s (i + (q - p)) 4" if "p \<le> q" "q < p + Suc n"
    using Suc.prems that by (subst one(2)) (auto simp: word_offsets_def)
  show ?case
    using Suc.IH [of "map_one p i flags s" "Suc p" "Suc i"] Suc.prems one(4) one(1) [OF Suc.prems(4)] fw
      idx by (cases "q = p") auto
qed auto

lemma map_many_fw:
  assumes "paging_ok s" and "p + n \<le> 0xC0000" and "i + n \<le> 0x100000" and "j \<le> 0x100000"
  shows "fw (map_many p i n flags s) j 0 = (if i \<le> j \<and> j < i + n then fw s j 0 + 1 else fw s j 0)"
    and "fw (map_many p i n flags s) j 4 = fw s j 4"
    and "fw (map_many p i n flags s) j 8 =
      (if i \<le> j \<and> j < i + n then of_nat (4096 * (p + (j - i))) else fw s j 8)"
proof -
  have "fw (map_many p i n flags s) j 0 = (if i \<le> j \<and> j < i + n then fw s j 0 + 1 else fw s j 0) \<and>
    fw (map_many p i n flags s) j 4 = fw s j 4 \<and>
    fw (map_many p i n flags s) j 8 = (if i \<le> j \<and> j < i + n then of_nat (4096 * (p + (j - i))) else fw s j 8)"
    using assms
  proof (induction n arbitrary: p i s)
    case (Suc n)
    note pre = Suc.prems(1) page_pre [OF Suc.prems(2,3)]
    note one = map_one_views [OF pre, where flags = flags]
    have fw: "fw (map_one p i flags s) j 0 = (if j = i then fw s i 0 + 1 else fw s j 0)"
      "fw (map_one p i flags s) j 4 = fw s j 4"
      "fw (map_one p i flags s) j 8 = (if j = i then of_nat (4096 * p) else fw s j 8)"
      using one(2) [OF Suc.prems(4)] by (simp_all add: word_offsets_def)
    show ?case
      using Suc.IH [of "map_one p i flags s" "Suc p" "Suc i"] Suc.prems one(4) fw
      by (cases "j = i") (auto simp: Suc_diff_le le_Suc_eq)
  qed simp
  then show "fw (map_many p i n flags s) j 0 = (if i \<le> j \<and> j < i + n then fw s j 0 + 1 else fw s j 0)"
    and "fw (map_many p i n flags s) j 4 = fw s j 4"
    and "fw (map_many p i n flags s) j 8 =
      (if i \<le> j \<and> j < i + n then of_nat (4096 * (p + (j - i))) else fw s j 8)"
    by blast+
qed

text \<open>What an operation on the paging structures leaves alone.\<close>

definition mm_keeps :: "'a kmem_scheme \<Rightarrow> 'a kmem_scheme \<Rightarrow> bool" where
  "mm_keeps s s' \<longleftrightarrow> g_frame_page_directory s' = g_frame_page_directory s \<and>
     g_frames_context s' = g_frames_context s \<and> kmem.more s' = kmem.more s \<and>
     (\<forall>a < 0xC0000000. low s' a = low s a)"

lemma mm_keeps_refl [simp]: "mm_keeps s s"
  by (simp add: mm_keeps_def)

lemma mm_keeps_trans [trans]: "mm_keeps s t \<Longrightarrow> mm_keeps t u \<Longrightarrow> mm_keeps s u"
  by (simp add: mm_keeps_def)

lemma mm_keeps_out [simp]:
  "mm_keeps s (s'\<lparr>trace := t, disp_bytes := d\<rparr>) = mm_keeps s s'"
  "mm_keeps (s\<lparr>trace := t, disp_bytes := d\<rparr>) s' = mm_keeps s s'"
  "mm_keeps s (s'\<lparr>g_kds_size := z\<rparr>) = mm_keeps s s'"
  by (simp_all add: mm_keeps_def low_def)

lemma map_one_keeps:
  assumes "paging_ok s" and "p < 0xC0000" and "i \<le> 0x100000"
  shows "mm_keeps s (map_one p i flags s)" and "g_kds_size (map_one p i flags s) = g_kds_size s"
proof -
  have fields: "g_frames_context (map_one p i flags s) = g_frames_context s" 
    "kmem.more (map_one p i flags s) = kmem.more s"
    by (simp_all add: map_one_def Let_def present_pde_def)
  show "g_kds_size (map_one p i flags s) = g_kds_size s" by (simp add: map_one_def Let_def present_pde_def)
  show "mm_keeps s (map_one p i flags s)"
    using map_one_views(3,5) [OF assms(1) _ user_pde [OF assms(2)] assms(3), where flags = flags] assms(2) fields
    by (simp add: mm_keeps_def)
qed

lemma map_many_keeps:
  assumes "paging_ok s" and "p + n \<le> 0xC0000" and "i + n \<le> 0x100000"
  shows "mm_keeps s (map_many p i n flags s) \<and> g_kds_size (map_many p i n flags s) = g_kds_size s"
  using assms
proof (induction n arbitrary: p i s)
  case (Suc n)
  note pre = Suc.prems(1) page_pre [OF Suc.prems(2,3)]
  note one = map_one_keeps [of s p i flags]
  show ?case
    using Suc.IH [of "map_one p i flags s" "Suc p" "Suc i"] Suc.prems map_one_views(4) [OF pre, of flags] one
    by (auto intro: mm_keeps_trans)
qed simp

lemma map_many_pde:
  assumes "paging_ok s" and "p + n \<le> 0xC0000" and "i + n \<le> 0x100000" and "k < 1024"
  shows "bit (pde_w (map_many p i n flags s) k) 0 \<longleftrightarrow> bit (pde_w s k) 0 \<or> (\<exists>q. p \<le> q \<and> q < p + n \<and> k = q div 1024)"
  using assms
proof (induction n arbitrary: p i s)
  case (Suc n)
  note pre = Suc.prems(1) page_pre [OF Suc.prems(2,3)]
  note one = map_one_views [OF pre, where flags = flags]
  have "bit (pde_w (map_one p i flags s) k) 0 \<longleftrightarrow> bit (pde_w s k) 0 \<or> k = p div 1024"
    using one(6,7) Suc.prems(4) by (cases "k = p div 1024") auto
  moreover have "(\<exists>q. p \<le> q \<and> q < p + Suc n \<and> k = q div 1024) \<longleftrightarrow>
      k = p div 1024 \<or> (\<exists>q. Suc p \<le> q \<and> q < Suc p + n \<and> k = q div 1024)"
    by (auto simp: less_Suc_eq_le) (metis Suc_leI le_neq_implies_less, metis Suc_leD)
  ultimately show ?case
    using Suc.IH [of "map_one p i flags s" "Suc p" "Suc i"] Suc.prems one(4) by simp
qed auto

lemma mappable_map_one:
  assumes "paging_ok s" and "p < 0xC0000" and "i \<le> 0x100000" and "q < 0x100000" and "q \<noteq> p"
  shows "mappable (map_one p i flags s) q = mappable s q"
  using map_one_views(1) [OF assms(1) _ user_pde [OF assms(2)] assms(3,4), where flags = flags] assms
  by (simp add: mappable_def)

lemma pde_of_page: "p \<le> 0xC0000 \<Longrightarrow> p div 1024 \<in> kernel_pdes \<longleftrightarrow> p = 0xC0000"
proof -
  assume "p \<le> 0xC0000"
  then have "p < 0xC0000 \<or> p = 0xC0000" by auto
  then show ?thesis using user_pde [of p] by (auto simp: kernel_pdes_def)
qed

text \<open>The state that a failed attempt to map page \<open>p\<close> leaves.\<close>

definition map_failed :: "nat \<Rightarrow> 'a kmem_scheme \<Rightarrow> 'a kmem_scheme \<Rightarrow> bool" where
  "map_failed p s s' \<longleftrightarrow> (\<exists>t d. s' =
     (if p div 1024 \<in> kernel_pdes then s else present_pde (p div 1024) s)\<lparr>trace := t, disp_bytes := d\<rparr>)"

lemma map_pages_loop_fail:
  assumes "paging_ok s" and "pdbr = g_frame_page_directory s" and "p < 0x100000" and "i \<le> 0x100000"
    and "cursor < n" and "\<not> mappable s p"
  shows "\<exists>s'. map_pages_loop pdbr (of_nat (4096 * p)) (get_frame_at (of_nat i)) n flags cursor s = Some (FAILED, s') \<and>
    map_failed p s s'"
proof -
  let ?k = "p div 1024"
  have small: "sint (of_nat ?k :: u32) \<noteq> INT_MIN" "sint (of_nat (p mod 1024) :: u32) \<noteq> INT_MIN"
    using assms(3) by (intro sint_small; simp)+
  note step = map_pages_loop_step [OF assms(1-5), where flags = flags]
  show ?thesis
  proof (cases "?k \<in> kernel_pdes")
    case True
    have "sint (pde_w s ?k) \<noteq> INT_MIN" by (rule sint_odd) (rule paging_okD(1) [OF assms(1) True])
    from kprintf_fields [OF render_pde_failed [OF small(1) this], of s] obtain r t d where
      "kprintf (''map_pages failed: pde %d pde->value %b'' @ [CHR 0x0A]) [VInt (of_nat ?k), VInt (pde_w s ?k)] s =
        Some (r, s\<lparr>trace := t, disp_bytes := d\<rparr>)" by blast
    with True show ?thesis unfolding step map_failed_def by (intro exI conjI) simp_all
  next
    case False
    with assms(6) have pte: "bit (pte_w s p) 0" by (simp add: mappable_def)
    from kprintf_fields [OF render_pte_failed [OF small sint_odd [OF pte]], of "present_pde ?k s"] obtain r t d where
      "kprintf (''map_pages failed: pde %d, pte %d pte->value: %b'' @ [CHR 0x0A])
        [VInt (of_nat ?k), VInt (of_nat (p mod 1024)), VInt (pte_w s p)] (present_pde ?k s) =
        Some (r, (present_pde ?k s)\<lparr>trace := t, disp_bytes := d\<rparr>)" by blast
    with False pte show ?thesis unfolding step map_failed_def by (intro exI conjI) simp_all
  qed
qed

lemma map_pages_loop_cases:
  assumes "paging_ok s" and "pdbr = g_frame_page_directory s" and "p \<le> 0xC0000"
    and "i + (n - c) \<le> 0x100000" and "c \<le> n" and "n < 0x100000"
  shows "p + (n - c) \<le> 0xC0000 \<and> (\<forall>q. p \<le> q \<and> q < p + (n - c) \<longrightarrow> mappable s q) \<and>
      map_pages_loop pdbr (of_nat (4096 * p)) (get_frame_at (of_nat i)) (of_nat n) flags (of_nat c) s =
        Some (SUCCES, map_many p i (n - c) flags s) \<or>
    (\<exists>m < n - c. p + m \<le> 0xC0000 \<and> (\<forall>q. p \<le> q \<and> q < p + m \<longrightarrow> mappable s q) \<and> \<not> mappable s (p + m) \<and>
      (\<exists>s'. map_pages_loop pdbr (of_nat (4096 * p)) (get_frame_at (of_nat i)) (of_nat n) flags (of_nat c) s =
        Some (FAILED, s') \<and> map_failed (p + m) (map_many p i m flags s) s'))"
  using assms
proof (induction "n - c" arbitrary: p i c s)
  case 0
  then have "c = n" by simp
  then show ?case using "0.prems"(3) by (subst map_pages_loop.simps) auto
next
  case (Suc d)
  then have c: "c < n" "d = n - Suc c" "n - c = Suc (n - Suc c)" "Suc c \<le> n" by auto
  have guard: "(of_nat c :: u32) < of_nat n" using c(1) Suc.prems(6) by (simp add: of_nat_less_32)
  have inc: "of_nat c + 1 = (of_nat (Suc c) :: u32)" by simp
  have p: "p < 0x100000" and i: "i \<le> 0x100000" using Suc.prems by auto
  show ?case
  proof (cases "mappable s p")
    case False
    from map_pages_loop_fail [OF Suc.prems(1,2) p i guard False, of flags] False c(3) Suc.prems(3)
    show ?thesis by (intro disjI2 exI [of _ 0]) auto
  next
    case True
    then have pde: "p div 1024 \<notin> kernel_pdes" and "\<not> bit (pte_w s p) 0" by (auto simp: mappable_def)
    then have lt: "p < 0xC0000" using pde_of_page [OF Suc.prems(3)] Suc.prems(3) by auto
    have ok: "paging_ok (map_one p i flags s)" by (rule map_one_views(4) [OF Suc.prems(1) p pde i])
    have dir: "pdbr = g_frame_page_directory (map_one p i flags s)"
      using Suc.prems(2) map_one_views(5) [OF Suc.prems(1) p pde i, of flags] by simp
    have mp: "mappable (map_one p i flags s) q = mappable s q" if "Suc p \<le> q" "q < 0x100000" for q
      by (rule mappable_map_one [OF Suc.prems(1) lt i]) (use that in auto)
    have step: "map_pages_loop pdbr (of_nat (4096 * p)) (get_frame_at (of_nat i)) (of_nat n) flags (of_nat c) s =
        map_pages_loop pdbr (of_nat (4096 * Suc p)) (get_frame_at (of_nat (Suc i))) (of_nat n) flags (of_nat (Suc c))
          (map_one p i flags s)"
      using map_pages_loop_step [OF Suc.prems(1,2) p i guard, of flags] pde \<open>\<not> bit (pte_w s p) 0\<close>
      by (simp only: if_False inc)
    have split: "(\<forall>q. p \<le> q \<and> q < p + Suc m \<longrightarrow> mappable s q) \<longleftrightarrow>
        (\<forall>q. Suc p \<le> q \<and> q < Suc p + m \<longrightarrow> mappable (map_one p i flags s) q)" if "Suc p + m \<le> 0xC0000" for m
      using True mp that by (auto simp: le_Suc_eq) (metis Suc_leI le_neq_implies_less not_less_eq_eq)
    from Suc.hyps(1) [OF c(2) ok dir, of "Suc p" "Suc i"] Suc.prems(3-6) c lt
    consider "Suc p + (n - Suc c) \<le> 0xC0000"
      "\<forall>q. Suc p \<le> q \<and> q < Suc p + (n - Suc c) \<longrightarrow> mappable (map_one p i flags s) q"
      "map_pages_loop pdbr (of_nat (4096 * Suc p)) (get_frame_at (of_nat (Suc i))) (of_nat n) flags (of_nat (Suc c))
          (map_one p i flags s) = Some (SUCCES, map_many (Suc p) (Suc i) (n - Suc c) flags (map_one p i flags s))"
    | m s' where "m < n - Suc c" "Suc p + m \<le> 0xC0000"
      "\<forall>q. Suc p \<le> q \<and> q < Suc p + m \<longrightarrow> mappable (map_one p i flags s) q"
      "\<not> mappable (map_one p i flags s) (Suc p + m)"
      "map_pages_loop pdbr (of_nat (4096 * Suc p)) (get_frame_at (of_nat (Suc i))) (of_nat n) flags (of_nat (Suc c))
          (map_one p i flags s) = Some (FAILED, s')"
      "map_failed (Suc p + m) (map_many (Suc p) (Suc i) m flags (map_one p i flags s)) s'"
      by (auto simp del: of_nat_Suc of_nat_mult)
    then show ?thesis
    proof cases
      case 1
      with split [of "n - Suc c"] c(3) show ?thesis unfolding step by auto
    next
      case (2 m s')
      have "\<not> mappable s (p + Suc m)" using 2(2,4) mp [of "Suc p + m"] by simp
      moreover have "\<forall>q. p \<le> q \<and> q < p + Suc m \<longrightarrow> mappable s q" using split [OF 2(2)] 2(3) by blast
      moreover have "map_failed (p + Suc m) (map_many p i (Suc m) flags s) s'" using 2(6) by simp
      ultimately show ?thesis unfolding step using 2(1,2,5) c(3)
        by (intro disjI2 exI [of _ "Suc m"]) auto
    qed
  qed
qed

lemma map_failed_views:
  assumes "map_failed p s s'" and "paging_ok s" and "p < 0x100000"
  shows "q < 0x100000 \<Longrightarrow> pte_w s' q = pte_w s q"
    and "j \<le> 0x100000 \<Longrightarrow> off \<le> 8 \<Longrightarrow> fw s' j off = fw s j off"
    and "paging_ok s'" and "mm_keeps s s'" and "g_kds_size s' = g_kds_size s"
    and "k < 1024 \<Longrightarrow> bit (pde_w s k) 0 \<Longrightarrow> bit (pde_w s' k) 0"
proof -
  obtain t d where s': "s' = (if p div 1024 \<in> kernel_pdes then s else present_pde (p div 1024) s)\<lparr>trace := t, disp_bytes := d\<rparr>"
    using assms(1) by (auto simp: map_failed_def)
  have k: "p div 1024 < 1024" using assms(3) by simp
  note pv = present_pde_views [OF assms(2) k]
  have fields: "g_frames_context (present_pde k s) = g_frames_context s" "g_kds_size (present_pde k s) = g_kds_size s"
    "kmem.more (present_pde k s) = kmem.more s" for k
    by (simp_all add: present_pde_def)
  show "q < 0x100000 \<Longrightarrow> pte_w s' q = pte_w s q" using pv(5) s' by simp
  show "j \<le> 0x100000 \<Longrightarrow> off \<le> 8 \<Longrightarrow> fw s' j off = fw s j off" using pv(6) s' by simp
  show "paging_ok s'"
    using assms(2) pv(9) unfolding s' by (auto intro: paging_ok_cong)
  show "mm_keeps s s'" using pv(7,8) fields unfolding s' by (simp add: mm_keeps_def low_def)
  show "g_kds_size s' = g_kds_size s" using fields unfolding s' by simp
  show "bit (pde_w s' k) 0" if "k < 1024" "bit (pde_w s k) 0" for k
    using that pv(1) pv(4) [of k] unfolding s' by (cases "k = p div 1024") auto
qed

text \<open>
  The effect of a call that maps the first \<open>m\<close> of the pages: their entries receive the
  frames' addresses and the flags, and the frames are counted and labelled.
\<close>

definition mapped :: "nat \<Rightarrow> nat \<Rightarrow> nat \<Rightarrow> u32 \<Rightarrow> 'a kmem_scheme \<Rightarrow> 'a kmem_scheme \<Rightarrow> bool" where
  "mapped p i m flags s s' \<longleftrightarrow>
     (\<forall>q < 0x100000. pte_w s' q =
        (if p \<le> q \<and> q < p + m then map_entry (fw s (i + (q - p)) 4) flags (pte_w s q) else pte_w s q)) \<and>
     (\<forall>j \<le> 0x100000. fw s' j 0 = (if i \<le> j \<and> j < i + m then fw s j 0 + 1 else fw s j 0) \<and>
        fw s' j 4 = fw s j 4 \<and>
        fw s' j 8 = (if i \<le> j \<and> j < i + m then of_nat (4096 * (p + (j - i))) else fw s j 8)) \<and>
     (\<forall>q. p \<le> q \<and> q < p + m \<longrightarrow> bit (pde_w s' (q div 1024)) 0)"

lemma mapped_many:
  assumes "paging_ok s" and "p + m \<le> 0xC0000" and "i + m \<le> 0x100000"
  shows "mapped p i m flags s (map_many p i m flags s)"
  unfolding mapped_def using map_many_pte [OF assms] map_many_fw [OF assms] map_many_pde [OF assms] assms(2) by auto

lemma map_pages_cases:
  assumes ok: "paging_ok s" and "p \<le> 0xC0000" and "i + n \<le> 0x100000" and "n < 0x100000"
  obtains m r s' where
    "map_pages (get_kpd_frame s) (of_nat (4096 * p)) (get_frame_at (of_nat i)) (of_nat n) flags s = Some (r, s')"
    "m \<le> n" "p + m \<le> 0xC0000" "\<forall>q. p \<le> q \<and> q < p + m \<longrightarrow> mappable s q"
    "if m = n then r = SUCCES else r = FAILED \<and> \<not> mappable s (p + m)"
    "mapped p i m flags s s'" "paging_ok s'" "mm_keeps s s'" "g_kds_size s' = g_kds_size s"
proof -
  have dir: "get_kpd_frame s = g_frame_page_directory s" by (simp add: get_kpd_frame_def)
  let ?run = "map_pages_loop (get_kpd_frame s) (of_nat (4096 * p)) (get_frame_at (of_nat i)) (of_nat n) flags 0 s"
  consider "p + n \<le> 0xC0000" "\<forall>q. p \<le> q \<and> q < p + n \<longrightarrow> mappable s q"
      "?run = Some (SUCCES, map_many p i n flags s)"
    | m s' where "m < n" "p + m \<le> 0xC0000" "\<forall>q. p \<le> q \<and> q < p + m \<longrightarrow> mappable s q" "\<not> mappable s (p + m)"
      "?run = Some (FAILED, s')" "map_failed (p + m) (map_many p i m flags s) s'"
    using map_pages_loop_cases [OF ok dir assms(2), of i n 0 flags] assms(3,4)
    by (auto simp del: of_nat_mult)
  then show ?thesis
  proof cases
    case 1
    then show ?thesis
      using that [of SUCCES "map_many p i n flags s" n] assms mapped_many [of s p n i flags]
        map_many_ok [of s p n i flags] map_many_keeps [of s p n i flags]
      by (auto simp: map_pages_def)
  next
    case (2 m s')
    note m = 2(1-4) and res = 2(5) and fl = 2(6)
    have pre: "i + m \<le> 0x100000" "p + m < 0x100000" using m assms(3) by auto
    note fv = map_failed_views [OF fl map_many_ok [OF ok m(2) pre(1)] pre(2)]
    have "mapped p i m flags s s'"
      using mapped_many [OF ok m(2) pre(1), of flags] fv(1,2,6) m(2) unfolding mapped_def by auto
    moreover have "mm_keeps s s'" "g_kds_size s' = g_kds_size s"
      using map_many_keeps [OF ok m(2) pre(1), of flags] fv(4,5) mm_keeps_trans by auto
    ultimately show ?thesis using that [of FAILED s' m] m res fv(3) by (auto simp: map_pages_def)
  qed
qed


end
