(* ===== verification/Sbrk.thy ===== *)
theory Sbrk
  imports MapProps
begin

text \<open>
  The kernel break. What \<open>sbrk\<close> promises to the kernel heap is the locale
  \<open>break_segment\<close>; the model of \<open>sbrk\<close> in \<^verbatim>\<open>src/pages.c\<close> is an instance of it.
\<close>

subsection \<open>unmap\_pages\<close>

text \<open>
  The 10-bit address field of an entry that leads to a page table at \<open>0x400 + k\<close> is 1, so
  that every write of \<open>unmap_pages\<close> goes to the words at \<open>0xC0001000\<close>.
\<close>

lemma pde4_addr_of_table:
  assumes "pde_ptaddr v = 0x400 + of_nat k" and "k < 1024"
  shows "pde4_addr v = 1"
proof -
  have "pde4_addr v = drop_bit 10 (pde_ptaddr v)"
    by (rule bit_word_eqI) (auto simp: pde4_addr_def pde_ptaddr_def bit_simps)
  moreover have "unat (0x400 + of_nat k :: u32) = 0x400 + k"
    using assms(2) unat_of_nat_32 [of "0x400 + k"] by simp
  then have "unat (drop_bit 10 (0x400 + of_nat k :: u32)) = 1"
    using assms(2) by (simp add: drop_bit_eq_div unat_div)
  ultimately show ?thesis using assms(1) by (simp add: word_unat_eq_iff)
qed

definition stray :: "nat \<Rightarrow> nat" where
  "stray p = 0xC0001000 + 4 * (p mod 1024)"

lemma stray_views:
  assumes "pd_placed s" and s'_def: "s' = s\<lparr>mem := store32 (mem s) (of_nat (stray p)) v\<rparr>"
  shows "k < 1024 \<Longrightarrow> pde_w s' k = pde_w s k" and "q < 0x100000 \<Longrightarrow> pte_w s' q = pte_w s q"
    and "i \<le> 0x100000 \<Longrightarrow> off \<le> 8 \<Longrightarrow> fw s' i off = fw s i off" and "a < 0xC0000000 \<Longrightarrow> low s' a = low s a"
proof -
  have pd: "3222274048 \<le> pdn s" "pdn s + 4096 \<le> 3225419776" using assms(1) by (simp_all add: pd_placed_def)
  have pdn: "pdn (s\<lparr>mem := m\<rparr>) = pdn s" for m by (simp add: pdn_def)
  have r: "p mod 1024 < 1024" by simp
  show "pde_w s' k = pde_w s k" if "k < 1024"
    unfolding pde_w_def s'_def pdn
    by (simp only: mem_upd, rule load32_store32_nat) (use that pd r in \<open>auto simp: stray_def simp del: mod_less_divisor\<close>)
  show "pte_w s' q = pte_w s q" if "q < 0x100000"
    unfolding pte_w_def s'_def
    by (simp only: mem_upd, rule load32_store32_nat) (use that r in \<open>auto simp: stray_def pta_def simp del: mod_less_divisor\<close>)
  show "fw s' i off = fw s i off" if "i \<le> 0x100000" "off \<le> 8"
    unfolding fw_def s'_def
    by (simp only: mem_upd, rule load32_store32_nat) (use that r in \<open>auto simp: stray_def fa_def simp del: mod_less_divisor\<close>)
  show "low s' a = low s a" if "a < 0xC0000000"
    unfolding low_def s'_def
    by (simp only: mem_upd, rule store32_nat_other) (use that r in \<open>auto simp: stray_def simp del: mod_less_divisor\<close>)
qed

lemma unmap_pages_loop_step:
  assumes ok: "paging_ok s" and pdbr: "pdbr = g_frame_page_directory s" and p: "p < 0xC0000" and c: "cursor < n"
  shows "unmap_pages_loop pdbr (of_nat (4096 * p)) n cursor s =
    unmap_pages_loop pdbr (of_nat (4096 * Suc p)) n (cursor + 1)
      (s\<lparr>mem := store32 (mem s) (of_nat (stray p)) 0, invlpg_log := invlpg_log s @ [of_nat (stray p)]\<rparr>)"
proof -
  have k: "p div 1024 < 1024" using p by simp
  have "pde4_addr (pde_w s (p div 1024)) = 1"
    by (rule pde4_addr_of_table [OF paging_okD(4) [OF ok k user_pde [OF p]] k])
  then have "PDE_PTADDR_TO_VADDR (pde4_addr (pde_w s (p div 1024))) + 4 * of_nat (p mod 1024) = of_nat (stray p)"
    by (simp add: PDE_PTADDR_TO_VADDR_def SYSTEM_ADDR_BASE_def push_bit_eq_mult stray_def)
  moreover have "of_nat (4096 * p) + FRAME_SIZE = of_nat (4096 * Suc p)" by (simp add: FRAME_SIZE_def)
  moreover have "p < 0x100000" using p by simp
  ultimately show ?thesis
    using c by (subst unmap_pages_loop.simps)
      (simp only: cursors_of_page address_rules(1,2) [OF pdbr] Let_def if_True, simp add: st_def native_flush_tlb_single_def)
qed

definition same_tables :: "'a kmem_scheme \<Rightarrow> 'a kmem_scheme \<Rightarrow> bool" where
  "same_tables s s' \<longleftrightarrow> (\<forall>k < 1024. pde_w s' k = pde_w s k) \<and> (\<forall>q < 0x100000. pte_w s' q = pte_w s q) \<and>
     (\<forall>i \<le> 0x100000. \<forall>off \<le> 8. fw s' i off = fw s i off)"

lemma unmap_pages_loop_keeps:
  assumes "paging_ok s" and "pdbr = g_frame_page_directory s" and "p + (n - c) \<le> 0xC0000" and "c \<le> n" and "n < 0x100000"
  shows "same_tables s (unmap_pages_loop pdbr (of_nat (4096 * p)) (of_nat n) (of_nat c) s) \<and>
    mm_keeps s (unmap_pages_loop pdbr (of_nat (4096 * p)) (of_nat n) (of_nat c) s) \<and>
    g_kds_size (unmap_pages_loop pdbr (of_nat (4096 * p)) (of_nat n) (of_nat c) s) = g_kds_size s"
  using assms
proof (induction "n - c" arbitrary: p c s)
  case 0
  then have "c = n" by simp
  then show ?case by (subst (1 2 3) unmap_pages_loop.simps) (simp add: same_tables_def)
next
  case (Suc d)
  then have c: "c < n" "d = n - Suc c" "Suc c \<le> n" by auto
  have guard: "(of_nat c :: u32) < of_nat n" using c(1) Suc.prems(5) by (simp add: of_nat_less_32)
  have p: "p < 0xC0000" using Suc.prems(3) c by simp
  let ?u = "s\<lparr>mem := store32 (mem s) (of_nat (stray p)) 0, invlpg_log := invlpg_log s @ [of_nat (stray p)]\<rparr>"
  have pd: "pd_placed s" using Suc.prems(1) by simp
  note sv = stray_views [OF pd refl, where p = p and v = 0]
  have one: "same_tables s ?u" "mm_keeps s ?u" "g_kds_size ?u = g_kds_size s"
    using sv by (simp_all add: same_tables_def mm_keeps_def)
  have ok: "paging_ok ?u" by (rule paging_ok_cong [OF Suc.prems(1)]) (use one in \<open>simp_all add: same_tables_def\<close>)
  have inc: "of_nat c + 1 = (of_nat (Suc c) :: u32)" by simp
  have "same_tables ?u (unmap_pages_loop pdbr (of_nat (4096 * Suc p)) (of_nat n) (of_nat (Suc c)) ?u) \<and>
    mm_keeps ?u (unmap_pages_loop pdbr (of_nat (4096 * Suc p)) (of_nat n) (of_nat (Suc c)) ?u) \<and>
    g_kds_size (unmap_pages_loop pdbr (of_nat (4096 * Suc p)) (of_nat n) (of_nat (Suc c)) ?u) = g_kds_size ?u"
    by (rule Suc.hyps(1) [OF c(2) ok]) (use Suc.prems c in auto)
  with one show ?case
    unfolding unmap_pages_loop_step [OF Suc.prems(1,2) p guard] inc
    by (auto intro: mm_keeps_trans simp: same_tables_def)
qed

lemma unmap_pages_keeps:
  assumes "paging_ok s" and "p + n \<le> 0xC0000"
  shows "same_tables s (unmap_pages (get_kpd_frame s) (of_nat (4096 * p)) (int n) s)"
    and "mm_keeps s (unmap_pages (get_kpd_frame s) (of_nat (4096 * p)) (int n) s)"
    and "g_kds_size (unmap_pages (get_kpd_frame s) (of_nat (4096 * p)) (int n) s) = g_kds_size s"
    and "paging_ok (unmap_pages (get_kpd_frame s) (of_nat (4096 * p)) (int n) s)"
proof -
  have dir: "get_kpd_frame s = g_frame_page_directory s" by (simp add: get_kpd_frame_def)
  from unmap_pages_loop_keeps [OF assms(1) dir, of p n 0] assms(2)
  show k: "same_tables s (unmap_pages (get_kpd_frame s) (of_nat (4096 * p)) (int n) s)"
    "mm_keeps s (unmap_pages (get_kpd_frame s) (of_nat (4096 * p)) (int n) s)"
    "g_kds_size (unmap_pages (get_kpd_frame s) (of_nat (4096 * p)) (int n) s) = g_kds_size s"
    unfolding unmap_pages_def by (simp_all del: of_nat_mult)
  show "paging_ok (unmap_pages (get_kpd_frame s) (of_nat (4096 * p)) (int n) s)"
    by (rule paging_ok_cong [OF assms(1)]) (use k in \<open>simp_all add: same_tables_def mm_keeps_def\<close>)
qed

subsection \<open>The contract of the kernel break\<close>

text \<open>
  The segment has a size in bytes, starts at \<open>base\<close> and ends at a page boundary, at most at
  \<open>top\<close>. Growing it either fails without an effect on the segment or appends the bytes asked
  for, and returns the old end. \<open>keeps\<close> relates the states before and after: whatever lies
  in memory below \<open>top\<close> is unchanged.
\<close>

definition pages_of :: "nat \<Rightarrow> nat" where
  "pages_of n = (n + 4095) div 4096"

lemma pages_of_add: "pages_of (m + n) \<le> pages_of m + pages_of n"
  by (simp add: pages_of_def)

lemma pages_of_pages [simp]: "pages_of (m + 4096 * n) = pages_of m + n"
proof -
  have "(m + 4096 * n + 4095) div 4096 = ((m + 4095) + n * 4096) div 4096" by (simp add: algebra_simps)
  then show ?thesis by (simp add: pages_of_def)
qed

lemma pages_of_mono: "m \<le> n \<Longrightarrow> pages_of m \<le> pages_of n"
  unfolding pages_of_def by (intro div_le_mono) simp

lemma pages_of_alt: "n div 4096 + (if 0 < n mod 4096 then 1 else 0) = pages_of n"
proof -
  define q r where "q = n div 4096" and "r = n mod 4096"
  have n: "n = 4096 * q + r" "r < 4096" by (simp_all add: q_def r_def)
  have "pages_of n = q + pages_of r"
    using pages_of_pages [of r q] n(1) by (simp add: add.commute)
  moreover have "pages_of r = (if 0 < r then 1 else 0)"
    using n(2) by (auto simp: pages_of_def div_eq_dividend_iff intro: div_nat_eqI)
  ultimately show ?thesis by (simp add: q_def r_def)
qed

locale break_segment =
  fixes brk :: "int \<Rightarrow> 's \<Rightarrow> (u32 \<times> 's) option" and ok :: "'s \<Rightarrow> bool" and len :: "'s \<Rightarrow> nat"
    and keeps :: "'s \<Rightarrow> 's \<Rightarrow> bool" and base :: nat and top :: nat
  assumes within: "ok s \<Longrightarrow> base + 4096 * pages_of (len s) \<le> top"
    and grow: "ok s \<Longrightarrow> 0 < n \<Longrightarrow> n < 0x80000000 \<Longrightarrow> \<exists>r s'. brk (int n) s = Some (r, s') \<and> ok s' \<and> keeps s s' \<and>
      (r = MINUS_ONE \<and> len s' = len s \<or>
       r = of_nat (base + 4096 * pages_of (len s)) \<and> len s' = len s + n)"
    and shrink: "ok s \<Longrightarrow> 0 < n \<Longrightarrow> n < 0x80000000 \<Longrightarrow> n \<le> len s \<Longrightarrow> \<exists>s'. brk (- int n) s =
      Some (of_nat (base + 4096 * pages_of (len s)), s') \<and> ok s' \<and> keeps s s' \<and> len s' = len s - n"
    and ends: "top < 0xFFFFFFFF"
begin

lemma end_not_minus_one:
  assumes "ok s"
  shows "(of_nat (base + 4096 * pages_of (len s)) :: u32) \<noteq> MINUS_ONE"
proof -
  have "unat (of_nat (base + 4096 * pages_of (len s)) :: u32) = base + 4096 * pages_of (len s)"
    by (rule unat_of_nat_32) (use within [OF assms] ends in simp)
  moreover have "unat (- 1 :: u32) = 0xFFFFFFFF" by (simp add: unsigned_minus_1_eq_mask mask_eq_exp_minus_1)
  ultimately show ?thesis using within [OF assms] ends by (metis le_less_trans less_irrefl)
qed

text \<open>A segment of a header and \<open>k\<close> pages, grown and shrunk by whole pages.\<close>

lemma grow_pages:
  assumes "ok s" and "len s = 8 + 4096 * k" and "0 < m" and "m < 0x80000"
  obtains r s' where "brk (int (4096 * m)) s = Some (r, s')" "ok s'" "keeps s s'"
    "r = MINUS_ONE \<and> len s' = len s \<or>
     r \<noteq> MINUS_ONE \<and> len s' = 8 + 4096 * (k + m) \<and> base + 8 + 4096 * (k + m) \<le> top"
proof -
  obtain r s' where s': "brk (int (4096 * m)) s = Some (r, s')" "ok s'" "keeps s s'"
      "r = MINUS_ONE \<and> len s' = len s \<or> r = of_nat (base + 4096 * pages_of (len s)) \<and> len s' = len s + 4096 * m"
    using grow [OF assms(1), of "4096 * m"] assms(3,4) by auto
  have "base + 8 + 4096 * (k + m) \<le> top" if "len s' = 8 + 4096 * (k + m)"
    using within [OF s'(2)] that pages_of_pages [of 8 "k + m"] by (simp add: pages_of_def [of 8] del: distrib_left_numeral)
  with s' end_not_minus_one [OF assms(1)] assms(2) show ?thesis by (intro that [of r s']) auto
qed

lemma shrink_pages:
  assumes "ok s" and "len s = 8 + 4096 * k" and "0 < m" and "m \<le> k" and "m < 0x80000"
  obtains r s' where "brk (- int (4096 * m)) s = Some (r, s')" "r \<noteq> MINUS_ONE" "ok s'" "keeps s s'"
    "len s' = 8 + 4096 * (k - m)"
proof -
  obtain s' where "brk (- int (4096 * m)) s = Some (of_nat (base + 4096 * pages_of (len s)), s')"
      "ok s'" "keeps s s'" "len s' = len s - 4096 * m"
    using shrink [OF assms(1), of "4096 * m"] assms(2-5) by auto
  with end_not_minus_one [OF assms(1)] assms(2,4) show ?thesis
    by (intro that [of "of_nat (base + 4096 * pages_of (len s))" s']) (auto simp: algebra_simps)
qed

end

subsection \<open>sbrk meets the contract\<close>

definition kds :: "'a kmem_scheme \<Rightarrow> nat" where
  "kds s = unat (g_kds_size s)"

definition KDS_BASE :: nat where "KDS_BASE = 0x8000000"
definition KDS_TOP :: nat where "KDS_TOP = 0xC0000000"

text \<open>The pages of the segment are present in the page tables.\<close>

definition segment_present :: "'a kmem_scheme \<Rightarrow> bool" where
  "segment_present s \<longleftrightarrow> (\<forall>q < pages_of (kds s). bit (pte_w s (0x8000 + q)) 0)"

definition brk_ok :: "'a kmem_scheme \<Rightarrow> bool" where
  "brk_ok s \<longleftrightarrow> paging_ok s \<and> frames_ok s \<and> KDS_BASE + 4096 * pages_of (kds s) \<le> KDS_TOP \<and> segment_present s"

lemma segment_present_mono:
  assumes "segment_present s" and "kds s' \<le> kds s" and "0x8000 + pages_of (kds s) \<le> 0x100000"
    and "\<And>q. q < 0x100000 \<Longrightarrow> bit (pte_w s q) 0 \<Longrightarrow> bit (pte_w s' q) 0"
  shows "segment_present s'"
  using assms pages_of_mono [OF assms(2)] by (auto simp: segment_present_def)

lemma map_entry_present: "bit (map_entry a (PF_PRES OR PF_RW) v) 0"
  by (simp add: map_entry_def pte_flags_set_def bit_set_bits bit_pres_rw del: bit_or_iff)

lemma mapped_mono:
  "mapped p i m (PF_PRES OR PF_RW) s s' \<Longrightarrow> q < 0x100000 \<Longrightarrow> bit (pte_w s q) 0 \<or> p \<le> q \<and> q < p + m \<Longrightarrow> bit (pte_w s' q) 0"
  by (auto simp: mapped_def map_entry_present simp del: bit_or_iff)

lemma KDS_START_value: "KDS_START = 0x8000000"
  by (simp add: KDS_START_def word_eq_iff_unsigned)

lemma kds_end_page:
  assumes "kds s \<le> 0xF8000000"
  shows "get_kds_end_addr s = of_nat (4096 * (0x8000 + pages_of (kds s)))"
proof -
  have sz: "g_kds_size s = of_nat (kds s)" by (simp add: kds_def)
  have lt: "kds s < 4294967296" by (simp add: kds_def)
  have "g_kds_size s div getpagesize + (if g_kds_size s mod FRAME_SIZE > 0 then 1 else 0) = of_nat (pages_of (kds s))"
    using of_nat_div_32 [OF lt, of 4096] of_nat_mod_32 [OF lt, of 4096] of_nat_less_32 [of 0 "kds s mod 4096"]
    unfolding sz pages_of_alt [symmetric] by (auto simp: getpagesize_def FRAME_SIZE_def)
  then show ?thesis
    by (simp add: get_kds_end_addr_def KDS_START_value getpagesize_def FRAME_SIZE_def Let_def)
qed

lemma set_run_views:
  assumes "i + n \<le> 0x100000" and "pd_placed s" and s': "s' = s\<lparr>mem := set_run i n v (mem s)\<rparr>"
  shows "k < 1024 \<Longrightarrow> pde_w s' k = pde_w s k" and "q < 0x100000 \<Longrightarrow> pte_w s' q = pte_w s q"
    and "a < 0xC0000000 \<Longrightarrow> low s' a = low s a" and "j < 0x100000 \<Longrightarrow> fw s' j 4 = fw s j 4"
proof -
  have pd: "3222274048 \<le> pdn s" "pdn s + 4096 \<le> 3225419776" using assms(2) by (simp_all add: pd_placed_def)
  have pdn: "pdn (s\<lparr>mem := m\<rparr>) = pdn s" for m by (simp add: pdn_def)
  show "pde_w s' k = pde_w s k" if "k < 1024"
    unfolding pde_w_def s' pdn
    by (simp only: mem_upd, rule load_set_run) (use that assms(1) pd in \<open>auto simp: fa_def\<close>)
  show "pte_w s' q = pte_w s q" if "q < 0x100000"
    unfolding pte_w_def s'
    by (simp only: mem_upd, rule load_set_run) (use that assms(1) in \<open>auto simp: fa_def pta_def\<close>)
  show "low s' a = low s a" if "a < 0xC0000000"
    unfolding low_def s'
    by (simp only: mem_upd, rule set_run_other) (use that assms(1) in \<open>auto simp: fa_def\<close>)
  show "fw s' j 4 = fw s j 4" if "j < 0x100000"
    unfolding fw_def s'
    by (simp only: mem_upd, rule load_set_run) (use that assms(1) in \<open>auto simp: fa_def\<close>)
qed

lemma alloc_frames_keeps:
  assumes "paging_ok s" and "frames_ok s" and "0 < n"
  obtains (Got) i s' where "alloc_frames (int n) s = (SUCCES, Some (get_frame_at (of_nat i)), s')" "i + n \<le> nframes s"
      "paging_ok s'" "mm_keeps s s'" "g_kds_size s' = g_kds_size s" "\<And>q. q < 0x100000 \<Longrightarrow> pte_w s' q = pte_w s q"
      "\<And>j. j < 0x100000 \<Longrightarrow> fw s' j 4 = fw s j 4"
  | (None) "alloc_frames (int n) s = (FAILED, None, s)" "\<And>i. i + n \<le> nframes s \<Longrightarrow> \<not> free_run s i n"
proof -
  have "paging_ok s'" "mm_keeps s s'" "q < 0x100000 \<Longrightarrow> pte_w s' q = pte_w s q" "j < 0x100000 \<Longrightarrow> fw s' j 4 = fw s j 4"
    if "i + n \<le> 0x100000" "s' = s\<lparr>mem := set_run i n 1 (mem s)\<rparr>" for i s' q j
  proof -
    have pd: "pd_placed s" using assms(1) by simp
    show "paging_ok s'" by (rule paging_ok_cong [OF assms(1)]) (use that set_run_views(1) [OF that(1) pd that(2)] in auto)
    show "mm_keeps s s'" using set_run_views(3) [OF that(1) pd that(2)] that(2) by (simp add: mm_keeps_def)
    show "q < 0x100000 \<Longrightarrow> pte_w s' q = pte_w s q" by (rule set_run_views(2) [OF that(1) pd that(2)])
    show "j < 0x100000 \<Longrightarrow> fw s' j 4 = fw s j 4" by (rule set_run_views(4) [OF that(1) pd that(2)])
  qed
  moreover have "i + n \<le> nframes s" "i + n \<le> 0x100000" if "first_run s n i" for i
    using that assms(2) by (auto simp: first_run_def frames_ok_def)
  ultimately show ?thesis using alloc_frames_cases [OF assms(2,3)] that by fastforce
qed

lemma paging_ok_kds: "paging_ok (s\<lparr>g_kds_size := z\<rparr>) = paging_ok s"
  by (simp add: paging_ok_def pd_placed_def pdn_def pde_w_def)

lemma frames_ok_keeps: "frames_ok s \<Longrightarrow> mm_keeps s s' \<Longrightarrow> frames_ok s'"
  by (simp add: frames_ok_def nframes_def mm_keeps_def)

lemma kprintf_sbrk:
  assumes "- 0x80000000 < sz" and "sz < 0x80000000"
  obtains r t d where "kprintf (''sbrk: %d'' @ [CHR 0x0A]) [VInt (of_int sz)] s = Some (r, s\<lparr>trace := t, disp_bytes := d\<rparr>)"
proof -
  have "sint (of_int sz :: u32) = sz"
    using assms by (simp add: signed_of_int signed_take_bit_int_eq_self)
  then have "sint (of_int sz :: u32) \<noteq> INT_MIN" using assms by (simp add: INT_MIN_def)
  from kprintf_fields [OF render_sbrk [OF this], of s] that show ?thesis by blast
qed

lemma brk_ok_out:
  "brk_ok (s\<lparr>trace := t, disp_bytes := d\<rparr>) = brk_ok s"
proof -
  have "segment_present (s\<lparr>trace := t, disp_bytes := d\<rparr>) = segment_present s"
    by (simp add: segment_present_def kds_def)
  then show ?thesis by (auto simp: brk_ok_def frames_ok_def nframes_def kds_def intro: paging_ok_cong)
qed


lemma pages_of_int: "int n div 0x1000 + (if int n mod 0x1000 > 0 then 1 else 0) = int (pages_of n)"
proof -
  have "int n mod 0x1000 = int (n mod 0x1000)" by (simp add: zmod_int)
  then show ?thesis unfolding pages_of_alt [symmetric] by (simp add: zdiv_int)
qed

text \<open>The limit that \<open>sbrk\<close> puts on the size of the segment, in pages (as the code computes it).\<close>

definition over_limit :: "nat \<Rightarrow> 'a kmem_scheme \<Rightarrow> bool" where
  "over_limit n s \<longleftrightarrow> mmap_base_addr_low (fc_map (g_frames_context s)) s + mmap_length_low (fc_map (g_frames_context s)) s div FRAME_SIZE
     < g_kds_size s div FRAME_SIZE + of_nat (pages_of n)"

lemma over_limit_out [simp]: "over_limit n (s\<lparr>trace := t, disp_bytes := d\<rparr>) = over_limit n s"
  by (simp add: over_limit_def mmap_base_addr_low_def mmap_length_low_def ld_def)

lemma sbrk_positive:
  assumes "0 < n" and "kprintf (''sbrk: %d'' @ [CHR 0x0A]) [VInt (of_int (int n))] s = Some (r, s')"
  shows "over_limit n s' \<and> (\<exists>t d. sbrk (int n) s = Some (MINUS_ONE, s'\<lparr>trace := t, disp_bytes := d\<rparr>)) \<or>
    (case alloc_frames (int (pages_of n)) s' of (FAILED, _, u) \<Rightarrow> sbrk (int n) s = Some (MINUS_ONE, u)
     | (SUCCES, fr, u) \<Rightarrow> sbrk (int n) s = do {
         fr \<leftarrow> fr;
         (rv, u) \<leftarrow> map_pages (get_kpd_frame u) (get_kds_end_addr u) fr (of_nat (pages_of n)) (PF_PRES OR PF_RW) u;
         if rv = FAILED then Some (MINUS_ONE, u)
         else Some (get_kds_end_addr u, u\<lparr>g_kds_size := g_kds_size u + of_nat n\<rparr>) })"
proof -
  obtain r2 t2 d2 where out2: "kprintf (''sbrk failed: not enough memory'' @ [CHR 0x0A]) [] s' =
      Some (r2, s'\<lparr>trace := t2, disp_bytes := d2\<rparr>)"
    using kprintf_fields [of "''sbrk failed: not enough memory'' @ [CHR 0x0A]" "[]" s'] by auto
  have np: "c_div (int n) 0x1000 + (if c_mod (int n) 0x1000 > 0 then 1 else 0) = int (pages_of n)"
    using pages_of_int [of n] by simp
  show ?thesis
    using assms(1) unfolding sbrk_def assms(2)
    by (simp only: np Let_def Option.bind.simps prod.case out2 of_nat_0_less_iff if_True)
      (auto simp: over_limit_def get_kds_size_def get_frames_context_def split: prod.splits retv.splits bind_splits)
qed

text \<open>
  The two outcomes of \<open>sbrk\<close> with a positive size: failure for one of three reasons, with the
  segment as before, or frames from \<open>i\<close> on mapped behind the segment. The state \<open>u\<close> is the one
  between the allocation and the mapping.
\<close>

definition pages_behind :: "nat \<Rightarrow> 'a kmem_scheme \<Rightarrow> nat set" where
  "pages_behind n s = {0x8000 + pages_of (kds s)..<0x8000 + pages_of (kds s) + pages_of n}"

definition growth_blocked :: "nat \<Rightarrow> 'a kmem_scheme \<Rightarrow> bool" where
  "growth_blocked n s \<longleftrightarrow> over_limit n s \<or> (\<forall>i. i + pages_of n \<le> nframes s \<longrightarrow> \<not> free_run s i (pages_of n)) \<or>
     (\<exists>q \<in> pages_behind n s. \<not> mappable s q)"

lemma sbrk_grow_cases:
  assumes ok: "brk_ok s" and n: "0 < n" "n < 0x80000000"
  obtains (Failed) v where "sbrk (int n) s = Some (MINUS_ONE, v)" "paging_ok v" "mm_keeps s v" "g_kds_size v = g_kds_size s"
      "\<And>q. q < 0x100000 \<Longrightarrow> bit (pte_w s q) 0 \<Longrightarrow> bit (pte_w v q) 0" "growth_blocked n s"
  | (Grown) i u v where
      "sbrk (int n) s = Some (of_nat (4096 * (0x8000 + pages_of (kds s))), v\<lparr>g_kds_size := g_kds_size s + of_nat n\<rparr>)"
      "paging_ok v" "mm_keeps s v" "g_kds_size v = g_kds_size s" "0x8000 + pages_of (kds s) + pages_of n \<le> 0xC0000"
      "i + pages_of n \<le> nframes s" "mapped (0x8000 + pages_of (kds s)) i (pages_of n) (PF_PRES OR PF_RW) u v"
      "\<And>q. q < 0x100000 \<Longrightarrow> pte_w u q = pte_w s q" "\<And>j. j < 0x100000 \<Longrightarrow> fw u j 4 = fw s j 4"
      "\<And>q. q \<in> pages_behind n s \<Longrightarrow> mappable s q"
proof -
  obtain r0 t d where out: "kprintf (''sbrk: %d'' @ [CHR 0x0A]) [VInt (of_int (int n))] s =
      Some (r0, s\<lparr>trace := t, disp_bytes := d\<rparr>)"
    by (rule kprintf_sbrk [of "int n" s]) (use n in auto)
  let ?s = "s\<lparr>trace := t, disp_bytes := d\<rparr>" and ?n = "pages_of n" and ?p = "0x8000 + pages_of (kds s)"
  have "brk_ok ?s" using ok by (simp add: brk_ok_out)
  then have ps: "paging_ok ?s" "frames_ok ?s" by (simp_all add: brk_ok_def)
  have np: "0 < ?n" "?n < 0x100000" using n by (auto simp: pages_of_def div_greater_zero_iff less_mult_imp_div_less)
  have p: "?p \<le> 0xC0000" using ok by (simp add: brk_ok_def KDS_BASE_def KDS_TOP_def)
  have kend: "get_kds_end_addr v = of_nat (4096 * ?p)" if "g_kds_size v = g_kds_size s" for v :: "'a kmem_scheme"
    using kds_end_page [of v] that p kds_def [of v] kds_def [of s] by (simp add: pages_of_def del: of_nat_mult of_nat_add)
  from sbrk_positive [OF n(1) out] show ?thesis
  proof (elim disjE exE conjE)
    fix t2 d2 assume "over_limit n ?s" and run: "sbrk (int n) s = Some (MINUS_ONE, ?s\<lparr>trace := t2, disp_bytes := d2\<rparr>)"
    then have "growth_blocked n s" by (simp add: growth_blocked_def)
    then show ?thesis by (intro Failed [OF run]) (use ok in \<open>auto simp: brk_ok_def intro: paging_ok_cong\<close>)
  next
    assume run: "case alloc_frames (int ?n) ?s of (FAILED, _, u) \<Rightarrow> sbrk (int n) s = Some (MINUS_ONE, u)
     | (SUCCES, fr, u) \<Rightarrow> sbrk (int n) s = do {
         fr \<leftarrow> fr;
         (rv, u) \<leftarrow> map_pages (get_kpd_frame u) (get_kds_end_addr u) fr (of_nat ?n) (PF_PRES OR PF_RW) u;
         if rv = FAILED then Some (MINUS_ONE, u)
         else Some (get_kds_end_addr u, u\<lparr>g_kds_size := g_kds_size u + of_nat n\<rparr>) }"
    show ?thesis
    proof (cases rule: alloc_frames_keeps [OF ps np(1)])
      case (2)
      with run have none: "sbrk (int n) s = Some (MINUS_ONE, ?s)" by simp
      have "growth_blocked n s" using 2(2) by (simp add: growth_blocked_def nframes_def free_run_def rc_load)
      then show ?thesis by (intro Failed [OF none]) (use ps in simp_all)
    next
      case (1 i u)
      have i: "i + ?n \<le> nframes s" "i + ?n \<le> 0x100000" using 1(2) ps(2) by (simp_all add: nframes_def frames_ok_def)
      obtain m r v where v: "map_pages (get_kpd_frame u) (of_nat (4096 * ?p)) (get_frame_at (of_nat i)) (of_nat ?n) (PF_PRES OR PF_RW) u = Some (r, v)"
          "?p + m \<le> 0xC0000" "if m = ?n then r = SUCCES else r = FAILED \<and> \<not> mappable u (?p + m)"
          "paging_ok v" "mm_keeps u v" "g_kds_size v = g_kds_size u" "mapped ?p i m (PF_PRES OR PF_RW) u v"
          "m \<le> ?n" "\<forall>q. ?p \<le> q \<and> q < ?p + m \<longrightarrow> mappable u q"
        by (rule map_pages_cases [OF 1(3) p i(2) np(2), of "PF_PRES OR PF_RW"]) blast
      have keeps: "mm_keeps s v" and kv: "g_kds_size v = g_kds_size s" using 1(4,5) v(5,6) mm_keeps_trans by auto
      have run': "sbrk (int n) s = (if r = FAILED then Some (MINUS_ONE, v)
         else Some (of_nat (4096 * ?p), v\<lparr>g_kds_size := g_kds_size s + of_nat n\<rparr>))"
        using run 1(1) kend [of u] kend [OF kv] 1(5) v(1) kv by simp
      have mu: "mappable u q = mappable s q" if "q < 0x100000" for q using 1(6) [OF that] by (simp add: mappable_def pte_w_def)
      show ?thesis
      proof (cases "r = FAILED")
        case True
        then have "m < ?n" "\<not> mappable s (?p + m)" using v(2,3,8) mu [of "?p + m"] by (auto split: if_splits)
        then have "growth_blocked n s" by (auto simp: growth_blocked_def pages_behind_def)
        then show ?thesis
        proof (intro Failed [OF _ v(4) keeps kv])
          show "bit (pte_w v q) 0" if "q < 0x100000" "bit (pte_w s q) 0" for q
            by (rule mapped_mono [OF v(7) that(1)]) (use that 1(6) in auto)
        qed (simp add: run' True)
      next
        case False
        then have "m = ?n" using v(3) by (auto split: if_splits)
        then show ?thesis
          using Grown [OF _ v(4) keeps kv _ i(1), of u] False run' v(2,7,9) 1(6,7) mu by (simp add: fw_def pte_w_def pages_behind_def)
      qed
    qed
  qed
qed

lemma sbrk_grow:
  assumes ok: "brk_ok s" and n: "0 < n" "n < 0x80000000"
  shows "\<exists>r s'. sbrk (int n) s = Some (r, s') \<and> brk_ok s' \<and> mm_keeps s s' \<and>
      (r = MINUS_ONE \<and> kds s' = kds s \<or> r = of_nat (KDS_BASE + 4096 * pages_of (kds s)) \<and> kds s' = kds s + n)"
proof (cases rule: sbrk_grow_cases [OF assms])
  case (1 v)
  have k: "kds v = kds s" using 1(4) by (simp add: kds_def)
  have "segment_present v"
    by (rule segment_present_mono [of s]) (use ok k 1(5) in \<open>auto simp: brk_ok_def KDS_BASE_def KDS_TOP_def\<close>)
  with 1 k ok frames_ok_keeps [of s v] show ?thesis by (auto simp: brk_ok_def)
next
  case (2 i u v)
  let ?v = "v\<lparr>g_kds_size := g_kds_size s + of_nat n\<rparr>"
  have "kds s + n \<le> 4096 * (pages_of (kds s) + pages_of n)" by (simp add: pages_of_def)
  moreover have "4096 * (pages_of (kds s) + pages_of n) < 4294967296" using 2(5) by simp
  ultimately have lt: "kds s + n < 4294967296" by linarith
  have "kds ?v = unat (of_nat (kds s) + of_nat n :: u32)" by (simp add: kds_def)
  also have "\<dots> = kds s + n" using unat_of_nat_32 [OF lt] by simp
  finally have sum: "kds ?v = kds s + n" .
  have "segment_present ?v"
    unfolding segment_present_def sum
  proof (intro allI impI)
    fix q assume "q < pages_of (kds s + n)"
    with pages_of_add [of "kds s" n] have q: "q < pages_of (kds s) + pages_of n" by simp
    have "bit (pte_w s (0x8000 + q)) 0" if "q < pages_of (kds s)"
      using that ok by (simp add: brk_ok_def segment_present_def)
    with q 2(5,8) have "bit (pte_w v (0x8000 + q)) 0" by (intro mapped_mono [OF 2(7)]) (auto simp: not_less)
    then show "bit (pte_w ?v (0x8000 + q)) 0" by (simp add: pte_w_def)
  qed
  then have "brk_ok ?v"
    using 2(2,5) frames_ok_keeps [OF _ 2(3)] ok pages_of_add [of "kds s" n]
    by (auto simp: brk_ok_def sum frames_ok_def nframes_def KDS_BASE_def KDS_TOP_def paging_ok_kds)
  with 2(1,3) sum show ?thesis by (intro exI [of _ "of_nat (4096 * (0x8000 + pages_of (kds s)))"] exI [of _ ?v]) (simp add: KDS_BASE_def)
qed

lemma sbrk_shrink:
  assumes ok: "brk_ok s" and n: "0 < n" "n < 0x80000000" and le: "n \<le> kds s"
  shows "\<exists>s'. sbrk (- int n) s = Some (of_nat (KDS_BASE + 4096 * pages_of (kds s)), s') \<and> brk_ok s' \<and>
    mm_keeps s s' \<and> kds s' = kds s - n \<and> (\<forall>q < 0x100000. pte_w s' q = pte_w s q)"
proof -
  obtain r0 t d where out: "kprintf (''sbrk: %d'' @ [CHR 0x0A]) [VInt (of_int (- int n))] s =
      Some (r0, s\<lparr>trace := t, disp_bytes := d\<rparr>)"
    by (rule kprintf_sbrk [of "- int n" s]) (use n in auto)
  let ?s = "s\<lparr>trace := t, disp_bytes := d\<rparr>"
  let ?n = "pages_of n" and ?k = "pages_of (kds s)"
  have oks: "brk_ok ?s" using ok by (simp add: brk_ok_out)
  then have ps: "paging_ok ?s" "frames_ok ?s" by (simp_all add: brk_ok_def)
  have np: "c_div (- (- int n)) 0x1000 + (if c_mod (- (- int n)) 0x1000 > 0 then 1 else 0) = int ?n"
    using pages_of_int [of n] by simp
  have bound: "0x8000 + ?k \<le> 0xC0000" using ok by (simp add: brk_ok_def KDS_BASE_def KDS_TOP_def)
  then have "kds s \<le> 0xF8000000" by (simp add: pages_of_def)
  then have kend: "get_kds_end_addr v = of_nat (4096 * (0x8000 + ?k))" if "g_kds_size v = g_kds_size s" for v :: "'a kmem_scheme"
    using kds_end_page [of v] that kds_def [of v] kds_def [of s] by simp
  have mono: "?n \<le> ?k" by (rule pages_of_mono [OF le])
  have start: "get_kds_end_addr ?s - of_int (int ?n) * getpagesize = of_nat (4096 * (0x8000 + (?k - ?n)))"
    unfolding kend [of ?s, simplified] using mono
    by (simp add: getpagesize_def FRAME_SIZE_def of_nat_diff algebra_simps)
  let ?u = "unmap_pages (get_kpd_frame ?s) (of_nat (4096 * (0x8000 + (?k - ?n)))) (int ?n) ?s"
  have pages: "0x8000 + (?k - ?n) + ?n \<le> 0xC0000" using mono bound by simp
  note un = unmap_pages_keeps [OF ps(1) pages]
  have ku: "g_kds_size ?u = g_kds_size s" using un(3) by simp
  have neg: "(0 < - int n) = False" "(- int n = 0) = False" using n(1) by auto
  have run: "sbrk (- int n) s = Some (get_kds_end_addr ?u, ?u\<lparr>g_kds_size := g_kds_size ?u + of_int (- int n)\<rparr>)"
    unfolding sbrk_def out
    by (simp only: Option.bind.simps prod.case neg if_False Let_def np start sum.case)
  let ?v = "?u\<lparr>g_kds_size := g_kds_size ?u + of_int (- int n)\<rparr>"
  show ?thesis
  proof (intro exI [of _ ?v] conjI)
    have "kds ?v = unat (of_nat (kds s) - of_nat n :: u32)" using ku by (simp add: kds_def)
    also have "\<dots> = unat (of_nat (kds s - n) :: u32)" using le by (simp add: of_nat_diff)
    also have "\<dots> = kds s - n" by (rule unat_of_nat_32) (simp add: kds_def less_imp_diff_less)
    finally show len: "kds ?v = kds s - n" .
    show keeps: "mm_keeps s ?v" using un(2) by (simp only: mm_keeps_out)
    show "sbrk (- int n) s = Some (of_nat (KDS_BASE + 4096 * ?k), ?v)"
      unfolding run kend [OF ku] by (simp add: KDS_BASE_def)
    show same: "\<forall>q < 0x100000. pte_w ?v q = pte_w s q" using un(1) by (simp add: same_tables_def pte_w_def)
    have "paging_ok ?v" using un(4) by (simp only: paging_ok_kds)
    moreover have "frames_ok ?v" by (rule frames_ok_keeps [OF _ keeps]) (use ok in \<open>simp add: brk_ok_def\<close>)
    moreover have "segment_present ?v"
    proof (rule segment_present_mono [of s])
      fix q assume "q < 0x100000" "bit (pte_w s q) 0"
      then show "bit (pte_w ?v q) 0" using same by simp
    next
      show "segment_present s" using ok by (simp add: brk_ok_def)
      show "kds ?v \<le> kds s" unfolding len by simp
    qed (use bound in simp)
    ultimately show "brk_ok ?v"
      using bound pages_of_mono [of "kds s - n" "kds s"] unfolding brk_ok_def len KDS_BASE_def KDS_TOP_def by simp
  qed
qed

interpretation kbrk: break_segment sbrk brk_ok kds mm_keeps KDS_BASE KDS_TOP
proof unfold_locales
  fix s :: "'a kmem_scheme"
  show "brk_ok s \<Longrightarrow> KDS_BASE + 4096 * pages_of (kds s) \<le> KDS_TOP" by (simp add: brk_ok_def)
  show "KDS_TOP < 0xFFFFFFFF" by (simp add: KDS_TOP_def)
qed (use sbrk_grow sbrk_shrink in blast)+

end
