(* ===== verification/BootPaging.thy ===== *)
theory BootPaging
  imports Sbrk
begin

text \<open>
  The boot code establishes the invariants: \<open>init_page_directory\<close>, \<open>finalize_pagination\<close> and
  \<open>init_page_tables\<close> set up the page directory and empty page tables,
  \<open>init_page_directory_for_frames\<close> maps the frame array and \<open>init_ram_frames\<close> fills it.
\<close>

subsection \<open>memset on natural addresses\<close>

lemma memset_nat:
  assumes "x + sz \<le> 4294967296" and "sz < 4294967296" and "y < 4294967296"
  shows "memset m (of_nat x) v (of_nat sz) (of_nat y) = (if x \<le> y \<and> y < x + sz then ucast v else m (of_nat y))"
proof (cases "x < 4294967296")
  case True
  have "unat (of_nat y - of_nat x :: u32) = (if x \<le> y then y - x else y + 4294967296 - x)"
    using True assms(3) by (simp add: unat_sub_if' unat_of_nat_32)
  then show ?thesis
    using assms True by (auto simp: memset_byte word_less_nat_alt unat_of_nat_32)
next
  case False
  then have "sz = 0" using assms(1) by simp
  then show ?thesis by (auto simp: memset_byte)
qed

lemma load32_memset_in:
  assumes "x \<le> y" and "y + 4 \<le> x + sz" and "x + sz \<le> 4294967296" and "sz < 4294967296"
  shows "load32 (memset m (of_nat x) 0 (of_nat sz)) (of_nat y) = 0"
proof -
  have "memset m (of_nat x) 0 (of_nat sz) (of_nat (y + j)) = 0" if "j < 4" for j
    using memset_nat [of x sz "y + j" m 0] assms that by simp
  then have "load32 (memset m (of_nat x) 0 (of_nat sz)) (of_nat y) = load32 (\<lambda>_. 0) (of_nat y)"
    by (intro load32_cong_nat) blast
  then show ?thesis by simp
qed

lemma load32_memset_out:
  assumes "y + 4 \<le> x \<or> x + sz \<le> y" and "y + 4 \<le> 4294967296" and "x + sz \<le> 4294967296" and "sz < 4294967296"
  shows "load32 (memset m (of_nat x) v (of_nat sz)) (of_nat y) = load32 m (of_nat y)"
proof -
  have "memset m (of_nat x) v (of_nat sz) (of_nat (y + j)) = m (of_nat (y + j))" if "j < 4" for j
    using memset_nat [of x sz "y + j" m v] assms that by auto
  then show ?thesis by (intro load32_cong_nat) blast
qed

subsection \<open>The page directory\<close>

definition dir_placed :: "u32 \<Rightarrow> bool" where
  "dir_placed page_dir \<longleftrightarrow> 0xC0100000 \<le> unat page_dir \<and> unat page_dir + 4096 \<le> 0xC0400000"

definition dir_w :: "u32 \<Rightarrow> 'a machine_scheme \<Rightarrow> nat \<Rightarrow> u32" where
  "dir_w page_dir s k = load32 (mem s) (of_nat (unat page_dir + 4 * k))"

lemma kernel_pde_values: "kernel_pde 0 = 0x83" "kernel_pde 0x00400000 = 0x400083"
  by (simp_all add: kernel_pde_def pde4_flags_set_def pde4_addr_set_def set_bits_def PDE_4MB_ADDR_HIGH_def pf_flags
      mask_eq_exp_minus_1)

lemma init_page_directory_entries:
  assumes "dir_placed page_dir" and "k < 1024"
  shows "dir_w page_dir (init_page_directory page_dir s) k =
    (if k = 0 \<or> k = 768 then kernel_pde 0 else if k = 769 then kernel_pde 0x00400000 else 0)"
proof -
  let ?n = "unat page_dir"
  have n: "0xC0100000 \<le> ?n" "?n + 4096 \<le> 0xC0400000" using assms(1) by (simp_all add: dir_placed_def)
  have addr: "id_window (page_dir - SYSTEM_ADDR_BASE) = of_nat (?n + 4 * 0)"
    "id_window (page_dir - SYSTEM_ADDR_BASE + 4 * KERNEL_PAGE_DIRECTORY_INDEX) = of_nat (?n + 4 * 768)"
    "id_window (page_dir - SYSTEM_ADDR_BASE + 4 * PAGE_TABLES_DIRECTORY_INDEX) = of_nat (?n + 4 * 769)"
    by (simp_all add: id_window_def layout_values)
  have ld: "load32 (store32 m (of_nat (?n + 4 * i)) v) (of_nat (?n + 4 * k)) =
      (if k = i then v else load32 m (of_nat (?n + 4 * k)))" if "i < 1024" for m v i
  proof (cases "k = i")
    case False
    then show ?thesis using that assms(2) n by (simp only: if_False) (rule load32_store32_nat, auto)
  qed simp
  have zero: "load32 (memset m (of_nat (?n + 4 * 0)) 0 (of_nat 4096)) (of_nat (?n + 4 * k)) = 0" for m
    by (rule load32_memset_in) (use assms(2) n in auto)
  have sz: "(1024 * 4 :: u32) = of_nat 4096" by simp
  show ?thesis
    unfolding init_page_directory_def dir_w_def Let_def st_def addr sz mem_upd ld [of 0, simplified] 
    by (simp only: ld mem_upd zero) auto
qed


lemma finalize_pagination_entries:
  assumes "dir_placed page_dir" and "length (g_handlers s) = IDT_SIZE"
  shows "\<exists>s'. finalize_pagination page_dir s = Some s' \<and>
    g_frame_page_directory s' = \<lparr>f_ref_count = 1, f_addr = page_dir - SYSTEM_ADDR_BASE, f_vaddr = page_dir\<rparr> \<and>
    (\<forall>k < 1024. pde_w s' k = (if k = 0 then 0 else dir_w page_dir s k)) \<and>
    g_handlers s' ! 14 = Some Page_fault_handler \<and> g_kds_size s' = g_kds_size s \<and> kmem.more s' = kmem.more s"
proof -
  let ?n = "unat page_dir"
  have n: "0xC0100000 \<le> ?n" "?n + 4096 \<le> 0xC0400000" using assms(1) by (simp_all add: dir_placed_def)
  have addr: "id_window (page_dir - SYSTEM_ADDR_BASE) = of_nat ?n" by (simp add: id_window_def)
  have "load32 (store32 m (of_nat ?n) 0) (of_nat (?n + 4 * k)) = (if k = 0 then 0 else load32 m (of_nat (?n + 4 * k)))"
    if "k < 1024" for m k
  proof (cases "k = 0")
    case False
    then show ?thesis using that n by (simp only: if_False) (rule load32_store32_nat, auto)
  qed simp
  then show ?thesis
    using assms(2) unfolding finalize_pagination_def addr Let_def
    by (simp add: register_irq_handler_def disable_cache_def IDT_SIZE_def st_def pde_w_def pdn_def dir_w_def del: of_nat_add of_nat_mult)
qed

lemma low_st_pde:
  assumes "pd_placed s" and "k < 1024" and "a < 0xC0100000"
  shows "low (st_pde k v s) a = low s a"
  unfolding low_def st_pde_def by (simp only: mem_upd, rule store32_nat_other) (use assms in \<open>auto simp: pd_placed_def\<close>)

lemma init_page_tables_loop_entries:
  assumes "pd_placed s" and "f_addr (g_frame_page_directory s) = f_vaddr (g_frame_page_directory s) - SYSTEM_ADDR_BASE"
    and "c \<le> 1024"
  shows "\<exists>m. init_page_tables_loop c s = s\<lparr>mem := m\<rparr> \<and>
    (\<forall>k < 1024. pde_w (s\<lparr>mem := m\<rparr>) k = (if c \<le> k \<and> \<not> bit (pde_w s k) 0
        then pde_ptaddr_set (0x400 + of_nat k) (pde_w s k) else pde_w s k)) \<and>
    (\<forall>a < 0xC0100000. low (s\<lparr>mem := m\<rparr>) a = low s a)"
  using assms
proof (induction "1024 - c" arbitrary: c s)
  case 0
  then have "c = 1024" by simp
  then show ?case by (intro exI [of _ "mem s"], subst init_page_tables_loop.simps) auto
next
  case (Suc d)
  then have c: "c < 1024" "d = 1024 - Suc c" "Suc c \<le> 1024" by auto
  have addr: "id_window (f_addr (g_frame_page_directory s) + 4 * of_nat c) = of_nat (pdn s + 4 * c)"
    using Suc.prems(2) by (simp add: id_window_def pdn_def algebra_simps)
  have ptaddr: "PDE_ADDR_HIGH (0x00400000 + of_nat c * 1024 * 4) = (0x400 + of_nat c :: u32)"
  proof -
    have "(0x00400000 + of_nat c * 1024 * 4 :: u32) = of_nat (0x1000 * (0x400 + c))" by (simp add: algebra_simps)
    moreover have "drop_bit 12 (of_nat (0x1000 * (0x400 + c)) :: u32) = of_nat (0x400 + c)"
      using c(1) of_nat_div_32 [of "0x1000 * (0x400 + c)" "0x1000"] by (simp add: drop_bit_eq_div)
    ultimately show ?thesis by (simp add: PDE_ADDR_HIGH_def)
  qed
  let ?u = "if bit (pde_w s c) 0 then s else st_pde c (pde_ptaddr_set (0x400 + of_nat c) (pde_w s c)) s"
  have step: "init_page_tables_loop c s = init_page_tables_loop (Suc c) ?u"
    using c(1) by (subst init_page_tables_loop.simps)
      (simp only: addr ptaddr Let_def if_True PF_tests, simp add: ld_def st_def pde_w_def st_pde_def)
  have u: "?u = s\<lparr>mem := mem ?u\<rparr>" by (simp add: st_pde_def)
  have pd: "pd_placed ?u" and fr: "g_frame_page_directory ?u = g_frame_page_directory s"
    using Suc.prems(1) by simp_all
  have vu: "pde_w ?u k = (if k = c \<and> \<not> bit (pde_w s c) 0 then pde_ptaddr_set (0x400 + of_nat c) (pde_w s c) else pde_w s k)"
    if "k < 1024" for k using that view_st_pde(1) [OF Suc.prems(1) c(1)] by auto
  have lu: "low ?u a = low s a" if "a < 0xC0100000" for a
    using that low_st_pde [OF Suc.prems(1) c(1)] by simp
  obtain m where m: "init_page_tables_loop (Suc c) ?u = ?u\<lparr>mem := m\<rparr>"
    "\<forall>k < 1024. pde_w (?u\<lparr>mem := m\<rparr>) k = (if Suc c \<le> k \<and> \<not> bit (pde_w ?u k) 0
        then pde_ptaddr_set (0x400 + of_nat k) (pde_w ?u k) else pde_w ?u k)"
    "\<forall>a < 0xC0100000. low (?u\<lparr>mem := m\<rparr>) a = low ?u a"
    using Suc.hyps(1) [OF c(2) pd _ c(3)] Suc.prems(2) fr by auto
  have um: "?u\<lparr>mem := m\<rparr> = s\<lparr>mem := m\<rparr>" by (simp add: st_pde_def)
  show ?case
    using m vu lu unfolding step um by (intro exI [of _ m]) (auto simp: Suc_le_eq le_less)
qed

lemma pde_ptaddr_set_bits:
  "bit (pde_ptaddr_set a v) n = bit v n" if "n < 12" for n :: nat
  using that by (simp add: pde_ptaddr_set_def bit_set_bits)

lemma bit_below_20: "bit (a :: u32) n \<Longrightarrow> n < 20" if "a < 0x100000"
proof -
  have "unat (take_bit 20 a) = unat a"
    using that by (simp add: unsigned_take_bit_eq take_bit_nat_eq_self word_less_nat_alt)
  then have "take_bit 20 a = a" by (simp add: word_unat_eq_iff)
  then show "bit a n \<Longrightarrow> n < 20" by (metis bit_take_bit_iff)
qed

lemma pde_ptaddr_set_get: "a < 0x100000 \<Longrightarrow> pde_ptaddr (pde_ptaddr_set a v) = a"
  by (rule bit_word_eqI) (auto simp: pde_ptaddr_def pde_ptaddr_set_def bit_simps dest: bit_below_20)

text \<open>An empty set of page tables.\<close>

definition tables_empty :: "'a machine_scheme \<Rightarrow> bool" where
  "tables_empty s \<longleftrightarrow> (\<forall>q < 0x100000. pte_w s q = 0)"

lemma init_page_tables_ok:
  assumes pd: "pd_placed s" and fr: "f_addr (g_frame_page_directory s) = f_vaddr (g_frame_page_directory s) - SYSTEM_ADDR_BASE"
    and kern: "\<And>k. k \<in> kernel_pdes \<Longrightarrow> bit (pde_w s k) 0 \<and> bit (pde_w s k) 7"
    and rest: "\<And>k. k < 1024 \<Longrightarrow> k \<notin> kernel_pdes \<Longrightarrow> pde_w s k = 0"
  shows "paging_ok (init_page_tables s)" and "tables_empty (init_page_tables s)" and "mm_keeps s (init_page_tables s)"
    and "g_kds_size (init_page_tables s) = g_kds_size s" and "\<And>a. a < 0xC0100000 \<Longrightarrow> low (init_page_tables s) a = low s a"
    and "\<exists>m. init_page_tables s = s\<lparr>mem := m\<rparr>"
proof -
  obtain m where m: "init_page_tables_loop 0 s = s\<lparr>mem := m\<rparr>"
    "\<And>k. k < 1024 \<Longrightarrow> pde_w (s\<lparr>mem := m\<rparr>) k = (if \<not> bit (pde_w s k) 0
        then pde_ptaddr_set (0x400 + of_nat k) (pde_w s k) else pde_w s k)"
    "\<And>a. a < 0xC0100000 \<Longrightarrow> low (s\<lparr>mem := m\<rparr>) a = low s a"
    using init_page_tables_loop_entries [OF pd fr, of 0] by auto
  have n: "0xC0100000 \<le> pdn s" "pdn s + 4096 \<le> 0xC0400000" using pd by (simp_all add: pd_placed_def)
  let ?m = "memset m (of_nat 0xC0400000) 0 (of_nat 0x400000)"
  have res: "init_page_tables s = s\<lparr>mem := ?m\<rparr>"
    unfolding init_page_tables_def m(1) by (simp add: layout_values)
  have pde: "pde_w (s\<lparr>mem := ?m\<rparr>) k = pde_w (s\<lparr>mem := m\<rparr>) k" if "k < 1024" for k
  proof -
    have "load32 ?m (of_nat (pdn s + 4 * k)) = load32 m (of_nat (pdn s + 4 * k))"
      by (rule load32_memset_out) (use that n in auto)
    then show ?thesis by (simp add: pde_w_def pdn_def del: of_nat_add)
  qed
  have small: "(0x400 + of_nat k :: u32) < 0x100000" if "k < 1024" for k
    using that of_nat_less_32 [of "0x400 + k" "0x100000"] by simp
  show "paging_ok (init_page_tables s)"
    unfolding paging_ok_def res
  proof (intro conjI allI impI ballI)
    show "pd_placed (s\<lparr>mem := ?m\<rparr>)" using pd by (simp add: pd_placed_def pdn_def)
    fix k assume "k \<in> kernel_pdes"
    then show "bit (pde_w (s\<lparr>mem := ?m\<rparr>) k) 0" "bit (pde_w (s\<lparr>mem := ?m\<rparr>) k) 7"
      using kern [of k] m(2) [of k] pde [of k] kernel_pdes_lt [of k] by simp_all
  next
    fix k :: nat assume k: "k < 1024" "k \<notin> kernel_pdes"
    then have "pde_w (s\<lparr>mem := ?m\<rparr>) k = pde_ptaddr_set (0x400 + of_nat k) 0"
      using rest m(2) pde by simp
    then show "\<not> bit (pde_w (s\<lparr>mem := ?m\<rparr>) k) 7" "pde_ptaddr (pde_w (s\<lparr>mem := ?m\<rparr>) k) = 0x400 + of_nat k"
      using pde_ptaddr_set_bits [of 7 _ 0] pde_ptaddr_set_get [OF small [OF k(1)], of 0] by simp_all
  qed
  show "tables_empty (init_page_tables s)"
    unfolding tables_empty_def res pte_w_def
  proof (intro allI impI)
    fix q :: nat assume "q < 0x100000"
    then show "load32 (mem (s\<lparr>mem := ?m\<rparr>)) (of_nat (pta q)) = 0"
      by (simp only: mem_upd) (rule load32_memset_in, auto simp: pta_def)
  qed
  show low: "low (init_page_tables s) a = low s a" if "a < 0xC0100000" for a
    using that m(3) [OF that] memset_nat [of "0xC0400000" "0x400000" a m 0] unfolding res low_def by simp
  show "mm_keeps s (init_page_tables s)" using low unfolding mm_keeps_def by (simp add: res)
  show "g_kds_size (init_page_tables s) = g_kds_size s" "\<exists>m. init_page_tables s = s\<lparr>mem := m\<rparr>" unfolding res by auto
qed


subsection \<open>Mapping the frame array\<close>

definition frame_pte :: "nat \<Rightarrow> u32" where
  "frame_pte q = pte_flags_set (PF_PRES OR PF_RW) (pte_addr_set (PTE_ADDR_HIGH (of_nat (0x800000 + 4096 * (q - 0xC0800)))) 0)"

lemma flush_views [simp]:
  "pde_w (native_flush_tlb_single a s) k = pde_w s k" "pte_w (native_flush_tlb_single a s) q = pte_w s q"
  "low (native_flush_tlb_single a s) b = low s b" "pdn (native_flush_tlb_single a s) = pdn s"
  by (simp_all add: native_flush_tlb_single_def)

lemma map_frames_ptes_spec:
  assumes "paging_ok s" and "cursor < 254" and "c \<le> 1024"
    and lim: "lim = (if int cursor < int pde_count - 1 then 1024 else min 1024 max_last_pde)"
  shows "\<exists>m l. map_frames_ptes pde_count max_last_pde cursor c (of_nat (pdn s + 4 * (770 + cursor))) s =
      s\<lparr>mem := m, invlpg_log := l\<rparr> \<and>
    (\<forall>k < 1024. pde_w (s\<lparr>mem := m\<rparr>) k = pde_w s k) \<and> (\<forall>a < 0xC0000000. low (s\<lparr>mem := m\<rparr>) a = low s a) \<and>
    (\<forall>q < 0x100000. pte_w (s\<lparr>mem := m\<rparr>) q =
      (if q div 1024 = 770 + cursor \<and> c \<le> q mod 1024 \<and> q mod 1024 < lim then frame_pte q else pte_w s q))"
  using assms(1-3)
proof (induction "1024 - c" arbitrary: c s)
  case 0
  then have "c = 1024" by simp
  then show ?case by (intro exI [of _ "mem s"] exI [of _ "invlpg_log s"], subst map_frames_ptes.simps) auto
next
  case (Suc d)
  then have c: "c < 1024" "d = 1024 - Suc c" "Suc c \<le> 1024" by auto
  let ?k = "770 + cursor" and ?p = "1024 * (770 + cursor) + c"
  let ?go = "int cursor < int pde_count - 1 \<or> c < max_last_pde"
  have k: "?k < 1024" "?k \<notin> kernel_pdes" using Suc.prems(2) by (auto simp: kernel_pdes_def)
  have p: "?p < 0x100000" using c(1) Suc.prems(2) by simp
  have pk: "?p div 1024 = ?k" using c(1) by simp
  have pc: "?p mod 1024 = c" using c(1) by (simp only: mod_mult_self4 mod_less)
  have go: "?go \<longleftrightarrow> c < lim" using lim c(1) by auto
  show ?case
  proof (cases ?go)
    case False
    then show ?thesis using go
      by (intro exI [of _ "mem s"] exI [of _ "invlpg_log s"], subst map_frames_ptes.simps) auto
  next
    case True
    have ld: "ld (of_nat (pdn s + 4 * ?k)) s = pde_w s ?k" by (simp add: ld_def pde_w_def)
    have pt: "PDE_PTADDR_TO_VADDR (pde_ptaddr (pde_w s ?k)) + 4 * of_nat c = of_nat (pta ?p)"
      using pte_address [of ?p "pde_w s ?k"] paging_okD(4) [OF Suc.prems(1) k] p pk pc by simp
    have fa: "FRAMES_START_PADDR + of_nat cursor * FOUR_MB + of_nat c * FRAME_SIZE =
        (of_nat (0x800000 + 4096 * (?p - 0xC0800)) :: u32)"
    proof -
      have "0x800000 + 4096 * (?p - 0xC0800) = 0x800000 + cursor * 0x400000 + c * 4096" by (simp add: algebra_simps)
      then show ?thesis by (simp add: page_consts del: of_nat_diff)
    qed
    let ?a = "of_nat (pta ?p) + 4 * of_nat c"
    let ?u = "native_flush_tlb_single ?a (st_pte ?p (frame_pte ?p) s)"
    have step: "map_frames_ptes pde_count max_last_pde cursor c (of_nat (pdn s + 4 * ?k)) s =
        map_frames_ptes pde_count max_last_pde cursor (Suc c) (of_nat (pdn ?u + 4 * ?k)) ?u"
      using c(1) True by (subst map_frames_ptes.simps)
        (simp only: Let_def ld pt fa if_True simp_thms frame_pte_def, simp add: st_def st_pte_def pdn_def native_flush_tlb_single_def)
    have pd: "pd_placed s" using Suc.prems(1) by simp
    note vs = view_st_pte [OF pd p, where v = "frame_pte ?p"]
    have ok: "paging_ok ?u"
      by (rule paging_ok_cong [OF Suc.prems(1)]) (use vs(1) in \<open>auto simp: native_flush_tlb_single_def st_pte_def\<close>)
    obtain m l where m: "map_frames_ptes pde_count max_last_pde cursor (Suc c) (of_nat (pdn ?u + 4 * ?k)) ?u = ?u\<lparr>mem := m, invlpg_log := l\<rparr>"
      "\<forall>k < 1024. pde_w (?u\<lparr>mem := m\<rparr>) k = pde_w ?u k" "\<forall>a < 0xC0000000. low (?u\<lparr>mem := m\<rparr>) a = low ?u a"
      "\<forall>q < 0x100000. pte_w (?u\<lparr>mem := m\<rparr>) q =
        (if q div 1024 = ?k \<and> Suc c \<le> q mod 1024 \<and> q mod 1024 < lim then frame_pte q else pte_w ?u q)"
      using Suc.hyps(1) [OF c(2) ok Suc.prems(2) c(3)] by blast
    have um: "?u\<lparr>mem := m, invlpg_log := l\<rparr> = s\<lparr>mem := m, invlpg_log := l\<rparr>"
      by (simp add: native_flush_tlb_single_def st_pte_def)
    have views: "pde_w (?u\<lparr>mem := m\<rparr>) k' = pde_w (s\<lparr>mem := m\<rparr>) k'" "low (?u\<lparr>mem := m\<rparr>) a = low (s\<lparr>mem := m\<rparr>) a"
      "pte_w (?u\<lparr>mem := m\<rparr>) q = pte_w (s\<lparr>mem := m\<rparr>) q" for k' a q
      by (simp_all add: pde_w_def pdn_def low_def pte_w_def native_flush_tlb_single_def st_pte_def)
    have split: "q = ?p \<longleftrightarrow> q div 1024 = ?k \<and> q mod 1024 = c" for q
      using pk pc by (metis div_mult_mod_eq mult.commute)
    show ?thesis
    proof (intro exI [of _ m] exI [of _ l] conjI allI impI)
      show "map_frames_ptes pde_count max_last_pde cursor c (of_nat (pdn s + 4 * ?k)) s = s\<lparr>mem := m, invlpg_log := l\<rparr>"
        using m(1) unfolding step um .
      show "pde_w (s\<lparr>mem := m\<rparr>) k = pde_w s k" if "k < 1024" for k
        using m(2) vs(1) that unfolding views by simp
      show "low (s\<lparr>mem := m\<rparr>) a = low s a" if "a < 0xC0000000" for a
        using m(3) vs(4) that unfolding views by simp
      fix q :: nat assume q: "q < 0x100000"
      have "pte_w (s\<lparr>mem := m\<rparr>) q =
          (if q div 1024 = ?k \<and> Suc c \<le> q mod 1024 \<and> q mod 1024 < lim then frame_pte q else
           if q = ?p then frame_pte ?p else pte_w s q)"
        using m(4) vs(2) q unfolding views by simp
      then show "pte_w (s\<lparr>mem := m\<rparr>) q =
          (if q div 1024 = ?k \<and> c \<le> q mod 1024 \<and> q mod 1024 < lim then frame_pte q else pte_w s q)"
        using True go split [of q] by (cases "q = ?p") auto
    qed
  qed
qed

lemma pde_flags_ok:
  assumes ok: "paging_ok s" and k: "k < 1024" "k \<notin> kernel_pdes"
  shows "paging_ok (st_pde k (pde_flags_set (PF_PRES OR PF_RW) (pde_w s k)) s)"
proof -
  let ?u = "st_pde k (pde_flags_set (PF_PRES OR PF_RW) (pde_w s k)) s"
  have pd: "pd_placed s" using ok by simp
  note v = view_st_pde(1) [OF pd k(1), where v = "pde_flags_set (PF_PRES OR PF_RW) (pde_w s k)"]
  have kern: "pde_w ?u k' = pde_w s k'" if "k' \<in> kernel_pdes" for k' using v [of k'] that k kernel_pdes_lt by auto
  show ?thesis
    unfolding paging_ok_def
  proof (intro conjI allI impI ballI)
    show "pd_placed ?u" using pd by simp
    show "bit (pde_w ?u k') 0" "bit (pde_w ?u k') 7" if "k' \<in> kernel_pdes" for k'
      using paging_okD(1,2) [OF ok that] kern [OF that] by simp_all
    show "\<not> bit (pde_w ?u k') 7" "pde_ptaddr (pde_w ?u k') = 0x400 + of_nat k'" if "k' < 1024" "k' \<notin> kernel_pdes" for k'
      using paging_okD(3,4) [OF ok that] paging_okD(4) [OF ok k] v [OF that(1)] pde_flags_set_bits(2) pde_flags_set_ptaddr
      by auto
  qed
qed

definition frames_mapped :: "nat \<Rightarrow> nat \<Rightarrow> nat \<Rightarrow> bool" where
  "frames_mapped pde_count max_last_pde q \<longleftrightarrow> 770 \<le> q div 1024 \<and>
     (q div 1024 + 1 < 770 + pde_count \<or> q div 1024 + 1 = 770 + pde_count \<and> q mod 1024 < max_last_pde)"

lemma map_frames_pdes_spec:
  assumes "paging_ok s" and "page_dir = f_vaddr (g_frame_page_directory s)" and "pde_count \<le> 254" and "c \<le> pde_count"
  shows "\<exists>m l. map_frames_pdes page_dir pde_count max_last_pde c s = s\<lparr>mem := m, invlpg_log := l\<rparr> \<and>
    paging_ok (s\<lparr>mem := m\<rparr>) \<and> (\<forall>a < 0xC0000000. low (s\<lparr>mem := m\<rparr>) a = low s a) \<and>
    (\<forall>k < 1024. bit (pde_w (s\<lparr>mem := m\<rparr>) k) 0 \<longleftrightarrow> bit (pde_w s k) 0 \<or> 770 + c \<le> k \<and> k < 770 + pde_count) \<and>
    (\<forall>q < 0x100000. pte_w (s\<lparr>mem := m\<rparr>) q =
      (if 770 + c \<le> q div 1024 \<and> frames_mapped pde_count max_last_pde q then frame_pte q else pte_w s q))"
  using assms
proof (induction "pde_count - c" arbitrary: c s)
  case 0
  then have "c = pde_count" by simp
  then show ?case
    using "0.prems"(1) by (intro exI [of _ "mem s"] exI [of _ "invlpg_log s"], subst map_frames_pdes.simps)
      (auto simp: frames_mapped_def)
next
  case (Suc d)
  then have c: "c < pde_count" "d = pde_count - Suc c" "Suc c \<le> pde_count" by auto
  let ?k = "770 + c"
  have k: "?k < 1024" "?k \<notin> kernel_pdes" using c(1) Suc.prems(3) by (auto simp: kernel_pdes_def)
  have pd: "pd_placed s" using Suc.prems(1) by simp
  let ?u = "st_pde ?k (pde_flags_set (PF_PRES OR PF_RW) (pde_w s ?k)) s"
  note vu = view_st_pde [OF pd k(1), where v = "pde_flags_set (PF_PRES OR PF_RW) (pde_w s ?k)"]
  have oku: "paging_ok ?u" by (rule pde_flags_ok [OF Suc.prems(1) k])
  let ?lim = "if int c < int pde_count - 1 then 1024 else min 1024 max_last_pde"
  have c254: "c < 254" using c(1) Suc.prems(3) by simp
  obtain m l where m: "map_frames_ptes pde_count max_last_pde c 0 (of_nat (pdn ?u + 4 * ?k)) ?u = ?u\<lparr>mem := m, invlpg_log := l\<rparr>"
    "\<forall>k < 1024. pde_w (?u\<lparr>mem := m\<rparr>) k = pde_w ?u k" "\<forall>a < 0xC0000000. low (?u\<lparr>mem := m\<rparr>) a = low ?u a"
    "\<forall>q < 0x100000. pte_w (?u\<lparr>mem := m\<rparr>) q =
       (if q div 1024 = ?k \<and> 0 \<le> q mod 1024 \<and> q mod 1024 < ?lim then frame_pte q else pte_w ?u q)"
    using map_frames_ptes_spec [OF oku c254, of 0 ?lim pde_count max_last_pde] by auto
  let ?v = "s\<lparr>mem := m, invlpg_log := l\<rparr>"
  have uv: "?u\<lparr>mem := m, invlpg_log := l\<rparr> = ?v" by (simp add: st_pde_def)
  have addr: "page_dir + 4 * (FRAMES_DIRECTORY_INDEX + of_nat c) = of_nat (pdn s + 4 * ?k)"
    using Suc.prems(2) by (simp add: layout_values pdn_def)
  have here: "ld (of_nat (pdn s + 4 * ?k)) s = pde_w s ?k"
    "st (of_nat (pdn s + 4 * ?k)) w s = st_pde ?k w s" for w
    by (simp_all add: ld_def pde_w_def st_def st_pde_def)
  have step: "map_frames_pdes page_dir pde_count max_last_pde c s = map_frames_pdes page_dir pde_count max_last_pde (Suc c) ?v"
    using c(1) m(1) unfolding uv by (subst map_frames_pdes.simps) (simp only: if_True Let_def addr here pdn_st, simp)
  have views: "pde_w ?v k' = pde_w ?u k'" "low ?v a = low ?u a" "pte_w ?v q = pte_w (?u\<lparr>mem := m\<rparr>) q"
    if "k' < 1024" "a < 0xC0000000" for k' a q
    using m(2,3) that by (auto simp: pde_w_def pdn_def low_def pte_w_def st_pde_def)
  have okv: "paging_ok ?v"
    by (rule paging_ok_cong [OF oku]) (use views(1) [of _ 0] in auto)
  obtain m' l' where m': "map_frames_pdes page_dir pde_count max_last_pde (Suc c) ?v = ?v\<lparr>mem := m', invlpg_log := l'\<rparr>"
    "paging_ok (?v\<lparr>mem := m'\<rparr>)" "\<forall>a < 0xC0000000. low (?v\<lparr>mem := m'\<rparr>) a = low ?v a"
    "\<forall>k < 1024. bit (pde_w (?v\<lparr>mem := m'\<rparr>) k) 0 \<longleftrightarrow> bit (pde_w ?v k) 0 \<or> 770 + Suc c \<le> k \<and> k < 770 + pde_count"
    "\<forall>q < 0x100000. pte_w (?v\<lparr>mem := m'\<rparr>) q =
      (if 770 + Suc c \<le> q div 1024 \<and> frames_mapped pde_count max_last_pde q then frame_pte q else pte_w ?v q)"
    using Suc.hyps(1) [OF c(2) okv _ Suc.prems(3) c(3)] Suc.prems(2) by auto
  have again: "pde_w (?v\<lparr>mem := m'\<rparr>) k' = pde_w (s\<lparr>mem := m'\<rparr>) k'" "low (?v\<lparr>mem := m'\<rparr>) a = low (s\<lparr>mem := m'\<rparr>) a"
    "pte_w (?v\<lparr>mem := m'\<rparr>) q = pte_w (s\<lparr>mem := m'\<rparr>) q" for k' a q
    by (simp_all add: pde_w_def pdn_def low_def pte_w_def)
  show ?case
  proof (intro exI [of _ m'] exI [of _ l'] conjI allI impI)
    show "map_frames_pdes page_dir pde_count max_last_pde c s = s\<lparr>mem := m', invlpg_log := l'\<rparr>"
      using m'(1) unfolding step by simp
    show "paging_ok (s\<lparr>mem := m'\<rparr>)" by (rule paging_ok_cong [OF m'(2)]) (simp_all add: pde_w_def pdn_def)
    show "low (s\<lparr>mem := m'\<rparr>) a = low s a" if "a < 0xC0000000" for a
      using m'(3) views(2) [of 0 a] vu(4) that unfolding again by simp
    show "bit (pde_w (s\<lparr>mem := m'\<rparr>) k') 0 \<longleftrightarrow> bit (pde_w s k') 0 \<or> 770 + c \<le> k' \<and> k' < 770 + pde_count" if "k' < 1024" for k'
      using m'(4) views(1) [of k' 0] vu(1) [of k'] that c(1) pde_flags_set_bits(1) unfolding again by auto
    fix q :: nat assume q: "q < 0x100000"
    have "frames_mapped pde_count max_last_pde q \<longleftrightarrow> q mod 1024 < ?lim" if "q div 1024 = ?k"
      using that c(1) unfolding frames_mapped_def by auto
    then show "pte_w (s\<lparr>mem := m'\<rparr>) q =
      (if 770 + c \<le> q div 1024 \<and> frames_mapped pde_count max_last_pde q then frame_pte q else pte_w s q)"
      using m'(5) m(4) views(3) [of 0 0 q] vu(2) q unfolding again
      by (cases "q div 1024 = ?k") (auto simp: Suc_le_eq le_less)
  qed
qed

lemma init_page_directory_for_frames_spec:
  assumes ok: "paging_ok s" and dir: "page_dir = f_vaddr (g_frame_page_directory s)" and sz: "unat sz \<le> 0xC00000"
  defines "n \<equiv> pages_of (unat sz)"
  shows "\<exists>s'. init_page_directory_for_frames page_dir sz s = s' \<and> paging_ok s' \<and> mm_keeps s s' \<and>
    g_kds_size s' = g_kds_size s \<and>
    (unat sz mod 0x400000 \<noteq> 0 \<longrightarrow> (\<forall>q < n. bit (pde_w s' ((0xC0800 + q) div 1024)) 0 \<and> pte_w s' (0xC0800 + q) = frame_pte (0xC0800 + q))) \<and>
    (\<forall>q < 0xC0800. pte_w s' q = pte_w s q)"
proof -
  define z where "z = unat sz"
  have sz': "sz = of_nat z" and z: "z \<le> 0xC00000" "z < 4294967296" using sz by (simp_all add: z_def)
  define pc ml where "pc = z div 0x400000 + (if 0 < z mod 0x400000 then 1 else 0)"
    and "ml = (z mod 0x400000) div 4096 + (if 0 < z mod 4096 then 1 else 0)"
  have counts: "unat (sz div FOUR_MB) + (if sz mod FOUR_MB > 0 then 1 else 0) = pc"
    "unat ((sz mod FOUR_MB) div FRAME_SIZE) + (if sz mod FRAME_SIZE > 0 then 1 else 0) = ml"
    unfolding pc_def ml_def z_def by (simp_all add: FOUR_MB_def FRAME_SIZE_def unat_div unat_mod word_less_nat_alt)
  have pc: "pc \<le> 3" using z(1) unfolding pc_def by (cases "z = 0xC00000") (auto simp: less_mult_imp_div_less Suc_le_eq)
  obtain m l where m: "map_frames_pdes page_dir pc ml 0 s = s\<lparr>mem := m, invlpg_log := l\<rparr>"
    "paging_ok (s\<lparr>mem := m\<rparr>)" "\<forall>a < 0xC0000000. low (s\<lparr>mem := m\<rparr>) a = low s a"
    "\<forall>k < 1024. bit (pde_w (s\<lparr>mem := m\<rparr>) k) 0 \<longleftrightarrow> bit (pde_w s k) 0 \<or> 770 \<le> k \<and> k < 770 + pc"
    "\<forall>q < 0x100000. pte_w (s\<lparr>mem := m\<rparr>) q = (if 770 \<le> q div 1024 \<and> frames_mapped pc ml q then frame_pte q else pte_w s q)"
    using map_frames_pdes_spec [OF ok dir, of pc 0 ml] pc by auto
  let ?s = "s\<lparr>mem := m, invlpg_log := l\<rparr>"
  have eq: "init_page_directory_for_frames page_dir sz s = ?s"
    unfolding init_page_directory_for_frames_def Let_def counts by (rule m(1))
  have views: "pde_w ?s k = pde_w (s\<lparr>mem := m\<rparr>) k" "pte_w ?s q = pte_w (s\<lparr>mem := m\<rparr>) q" "low ?s a = low (s\<lparr>mem := m\<rparr>) a" for k q a
    by (simp_all add: pde_w_def pdn_def pte_w_def low_def)
  have n: "n \<le> 3072" using z(1) unfolding n_def z_def [symmetric] by (simp add: pages_of_def)
  have mapped: "770 \<le> (0xC0800 + q) div 1024 \<and> (0xC0800 + q) div 1024 < 770 + pc \<and> frames_mapped pc ml (0xC0800 + q)"
    if "q < n" "z mod 0x400000 \<noteq> 0" for q
  proof -
    define a b where "a = z div 0x400000" and "b = z mod 0x400000"
    have zab: "z = 4096 * (1024 * a) + b" and b: "b < 0x400000" "b \<noteq> 0" using that(2) by (simp_all add: a_def b_def)
    have "n = 1024 * a + pages_of b"
      using pages_of_pages [of b "1024 * a"] unfolding n_def z_def [symmetric] by (subst zab) (simp add: add.commute)
    moreover have "ml = pages_of b"
    proof -
      have "z mod 4096 = b mod 4096" unfolding b_def by (simp add: mod_mod_cancel)
      then show ?thesis unfolding ml_def b_def [symmetric] by (simp flip: pages_of_alt)
    qed
    moreover have "pc = a + 1" using b(2) by (simp add: pc_def a_def b_def)
    moreover have "pages_of b \<le> 1024" using b(1) by (simp add: pages_of_def)
    ultimately have q: "q < 1024 * a + ml" "ml \<le> 1024" "pc = a + 1" using that(1) by simp_all
    have d: "(0xC0800 + q) div 1024 = 770 + q div 1024" "(0xC0800 + q) mod 1024 = q mod 1024"
      by (simp_all add: mod_add_eq [symmetric])
    have le: "q div 1024 \<le> a" using q by linarith
    have "q mod 1024 < ml" if "q div 1024 = a" using q(1) that by (simp add: minus_div_mult_eq_mod [symmetric] algebra_simps)
    with le q(3) show ?thesis unfolding frames_mapped_def d by auto
  qed
  show ?thesis
  proof (intro exI [of _ ?s] conjI allI impI)
    show "init_page_directory_for_frames page_dir sz s = ?s" by (rule eq)
    show "paging_ok ?s" by (rule paging_ok_cong [OF m(2)]) (simp_all add: views pde_w_def pdn_def)
    show "mm_keeps s ?s" using m(3) by (simp add: mm_keeps_def views)
    show "pte_w ?s q = pte_w s q" if "q < 0xC0800" for q
    proof -
      have "\<not> 770 \<le> q div 1024" using that by linarith
      with m(5) that show ?thesis by (simp add: views)
    qed
    fix q assume "unat sz mod 0x400000 \<noteq> 0" "q < n"
    then show "bit (pde_w ?s ((0xC0800 + q) div 1024)) 0" "pte_w ?s (0xC0800 + q) = frame_pte (0xC0800 + q)"
      using mapped m(4,5) n unfolding views z_def [symmetric] by simp_all
  qed simp
qed

subsection \<open>Address translation\<close>

text \<open>
  The translation of the x86 MMU for 32-bit paging with 4 MB pages: entries are read from
  the directory and from the table at the physical address in bits 12 to 31, which the
  kernel sees at its window.
\<close>

definition walk_pde :: "u32 \<Rightarrow> u32 \<Rightarrow> 'a machine_scheme \<Rightarrow> u32" where
  "walk_pde page_dir vaddr s = load32 (mem s) (page_dir + 4 * drop_bit 22 vaddr)"

definition walk_pte :: "u32 \<Rightarrow> u32 \<Rightarrow> 'a machine_scheme \<Rightarrow> u32" where
  "walk_pte page_dir vaddr s =
     load32 (mem s) (id_window (walk_pde page_dir vaddr s AND 0xFFFFF000) + 4 * (drop_bit 12 vaddr AND 0x3FF))"

definition mmu_walk :: "u32 \<Rightarrow> u32 \<Rightarrow> 'a machine_scheme \<Rightarrow> u32 option" where
  "mmu_walk page_dir vaddr s =
     (let pde = walk_pde page_dir vaddr s; pte = walk_pte page_dir vaddr s
      in if \<not> bit pde 0 then None
         else if bit pde 7 then Some ((pde AND 0xFFC00000) OR (vaddr AND 0x003FFFFF))
         else if \<not> bit pte 0 then None
         else Some ((pte AND 0xFFFFF000) OR (vaddr AND 0x00000FFF)))"

text \<open>The bits that the code wants to be clear in the entry that maps the address.\<close>

definition ignored_clear :: "u32 \<Rightarrow> u32 \<Rightarrow> 'a machine_scheme \<Rightarrow> bool" where
  "ignored_clear page_dir vaddr s \<longleftrightarrow>
     (let pde = walk_pde page_dir vaddr s
      in if bit pde 7 then pde4_ignored pde = 0 \<and> pde4_ignored2 pde = 0
         else pte_ignored (walk_pte page_dir vaddr s) = 0)"

lemma mask_values:
  "(0xFFC00000 :: u32) = push_bit 22 (mask 10)" "(0xFFFFF000 :: u32) = push_bit 12 (mask 20)"
  "(0x003FFFFF :: u32) = mask 22" "(0xFFF :: u32) = mask 12"
  by (simp_all add: mask_eq_exp_minus_1)

lemma disjoint_bits_or: "(\<And>n. bit (a :: u32) n \<Longrightarrow> \<not> bit b n) \<Longrightarrow> a + b = a OR b"
  by (rule disjunctive_add) auto

lemma table_address: "push_bit 12 (pde_ptaddr v) = v AND 0xFFFFF000"
  unfolding mask_values by (rule bit_word_eqI) (auto simp: pde_ptaddr_def bit_simps)

lemma frame_address: "push_bit 12 (pte_addr v) = v AND 0xFFFFF000"
  unfolding mask_values by (rule bit_word_eqI) (auto simp: pte_addr_def bit_simps)

lemma big_frame_address: "push_bit 22 (pde4_addr v) = v AND 0xFFC00000"
  unfolding mask_values by (rule bit_word_eqI) (auto simp: pde4_addr_def bit_simps)

lemma big_offset: "vaddr AND 0x003FF000 = 0 \<Longrightarrow> vaddr AND 0x003FFFFF = (vaddr AND 0xFFF :: u32)"
proof -
  have "(0x003FFFFF :: u32) = 0x003FF000 OR 0xFFF" by simp
  then show "vaddr AND 0x003FF000 = 0 \<Longrightarrow> ?thesis" by (simp only: bit.conj_disj_distrib) simp
qed

lemma get_physaddr_cases:
  "get_physaddr page_dir vaddr s =
     (let pde = walk_pde page_dir vaddr s; pte = walk_pte page_dir vaddr s
      in if \<not> bit pde 0 then NULL
         else if bit pde 7
         then (if pde4_ignored pde \<noteq> 0 \<or> pde4_ignored2 pde \<noteq> 0 then NULL
               else (pde AND 0xFFC00000) OR (vaddr AND 0xFFF))
         else if \<not> bit pte 0 \<or> pte_ignored pte \<noteq> 0 then NULL
         else (pte AND 0xFFFFF000) OR (vaddr AND 0xFFF))"
proof -
  have "(v AND 0xFFC00000) + (w AND 0xFFF) = (v AND 0xFFC00000) OR (w AND 0xFFF)"
    "(v AND 0xFFFFF000) + (w AND 0xFFF) = (v AND 0xFFFFF000) OR (w AND 0xFFF)" for v w :: u32
    unfolding mask_values by (rule disjoint_bits_or, auto simp: bit_simps)+
  then show ?thesis
    unfolding get_physaddr_def Let_def PF_tests PDE_PTADDR_TO_VADDR_def table_address frame_address big_frame_address
    by (simp add: id_window_def add.commute walk_pde_def walk_pte_def ld_def)
qed


subsection \<open>The frame array\<close>

definition ram_used :: "u32 \<Rightarrow> nat \<Rightarrow> bool" where
  "ram_used fend_paddr i \<longleftrightarrow> RAM_BASE_ADDR + of_nat i * FRAME_SIZE < fend_paddr"

lemma fr_rules:
  "fr_ref_count (get_frame_at (of_nat i)) s = fw s i 0"
  "fr_ref_count_set (get_frame_at (of_nat i)) v s = st_fw i 0 v s"
  "fr_vaddr_set (get_frame_at (of_nat i)) v s = st_fw i 8 v s"
  by (simp_all add: address_rules(6,8,9) [OF refl])

lemma init_ram_frames_loop_spec:
  assumes "pd_placed s" and "nframes s \<le> 0x100000" and "c \<le> nframes s"
    and start: "frames_meta_start_vaddr (g_frames_context s) = FRAMES_START_VADDR"
  shows "\<exists>m. init_ram_frames_loop fend (of_nat c) s = s\<lparr>mem := m\<rparr> \<and>
    (\<forall>k < 1024. pde_w (s\<lparr>mem := m\<rparr>) k = pde_w s k) \<and> (\<forall>q < 0x100000. pte_w (s\<lparr>mem := m\<rparr>) q = pte_w s q) \<and>
    (\<forall>a < 0xC0000000. low (s\<lparr>mem := m\<rparr>) a = low s a) \<and>
    (\<forall>i < nframes s. if c \<le> i
      then fw (s\<lparr>mem := m\<rparr>) i 0 = (if ram_used fend i then 1 else 0) \<and> fw (s\<lparr>mem := m\<rparr>) i 4 = fw s i 4 \<and>
        fw (s\<lparr>mem := m\<rparr>) i 8 = (if ram_used fend i then of_nat (fa i) else fw s i 8)
      else \<forall>off \<in> word_offsets. fw (s\<lparr>mem := m\<rparr>) i off = fw s i off)"
  using assms
proof (induction "nframes s - c" arbitrary: c s)
  case 0
  then have "of_nat c = frames_count (g_frames_context s)" by (simp add: nframes_def)
  with 0 show ?case by (intro exI [of _ "mem s"], subst init_ram_frames_loop.simps) auto
next
  case (Suc d)
  then have c: "c < nframes s" "c < 0x100000" "c \<le> 0x100000" and d: "d = nframes s - Suc c" by auto
  have guard: "of_nat c < frames_count (g_frames_context s)"
    using c(1,2) unfolding nframes_def by (simp add: word_less_nat_alt unat_of_nat_32)
  let ?v = "if ram_used fend c then 1 else 0 :: u32"
  let ?s1 = "st_fw c 0 ?v s"
  define u where "u = (if ram_used fend c then st_fw c 8 (of_nat (fa c)) ?s1 else ?s1)"
  have offs: "0 \<in> word_offsets" "4 \<in> word_offsets" "8 \<in> word_offsets" by (simp_all add: word_offsets_def)
  have pd1: "pd_placed ?s1" using Suc.prems(1) by simp
  note v1 = view_st_fw [OF Suc.prems(1) c(3) offs(1), where v = ?v]
  note v2 = view_st_fw [OF pd1 c(3) offs(3), where v = "of_nat (fa c)"]
  have rc1: "fw ?s1 c 0 = ?v" using v1(3) [OF c(3) offs(1)] by simp
  have va: "frames_meta_start_vaddr (g_frames_context ?s1) + of_nat c * 12 = of_nat (fa c)"
    using Suc.prems(4) by (simp add: fa_def layout_values)
  have inc: "of_nat c + 1 = (of_nat (Suc c) :: u32)" by simp
  have step: "init_ram_frames_loop fend (of_nat c) s = init_ram_frames_loop fend (of_nat (Suc c)) u"
    using guard by (subst init_ram_frames_loop.simps)
      (simp only: if_True Let_def fr_rules ram_used_def [symmetric] rc1 va inc u_def split: if_split, simp)
  have nu: "nframes u = nframes s" "pd_placed u" "frames_meta_start_vaddr (g_frames_context u) = FRAMES_START_VADDR"
    using Suc.prems(1,4) by (simp_all add: nframes_def u_def)
  obtain m where m: "init_ram_frames_loop fend (of_nat (Suc c)) u = u\<lparr>mem := m\<rparr>"
    "\<forall>k < 1024. pde_w (u\<lparr>mem := m\<rparr>) k = pde_w u k" "\<forall>q < 0x100000. pte_w (u\<lparr>mem := m\<rparr>) q = pte_w u q"
    "\<forall>a < 0xC0000000. low (u\<lparr>mem := m\<rparr>) a = low u a"
    "\<forall>i < nframes s. if Suc c \<le> i
      then fw (u\<lparr>mem := m\<rparr>) i 0 = (if ram_used fend i then 1 else 0) \<and> fw (u\<lparr>mem := m\<rparr>) i 4 = fw u i 4 \<and>
        fw (u\<lparr>mem := m\<rparr>) i 8 = (if ram_used fend i then of_nat (fa i) else fw u i 8)
      else \<forall>off \<in> word_offsets. fw (u\<lparr>mem := m\<rparr>) i off = fw u i off"
    using Suc.hyps(1) [of u "Suc c", OF _ nu(2) _ _ nu(3)] d Suc.prems(2) c unfolding nu(1) by (auto simp del: of_nat_Suc)
  have um: "u\<lparr>mem := m\<rparr> = s\<lparr>mem := m\<rparr>" by (simp add: st_fw_def u_def)
  have fu: "fw u i off = (if i = c \<and> off = 0 then ?v else if i = c \<and> off = 8 \<and> ram_used fend c then of_nat (fa c) else fw s i off)"
    if "i \<le> 0x100000" "off \<in> word_offsets" for i off
    using v1(3) [OF that] v2(3) [OF that] by (auto simp: u_def)
  have pu: "pde_w u k = pde_w s k" "pte_w u q = pte_w s q" "low u a = low s a" if "k < 1024" "q < 0x100000" "a < 0xC0000000" for k q a
    using v1(1,2,4) v2(1,2,4) that by (auto simp: u_def)
  show ?case
  proof (intro exI [of _ m] conjI allI impI)
    show "init_ram_frames_loop fend (of_nat c) s = s\<lparr>mem := m\<rparr>" using m(1) unfolding step um .
    show "pde_w (s\<lparr>mem := m\<rparr>) k = pde_w s k" if "k < 1024" for k using m(2) pu(1) [of k 0 0] that unfolding um by simp
    show "pte_w (s\<lparr>mem := m\<rparr>) q = pte_w s q" if "q < 0x100000" for q using m(3) pu(2) [of 0 q 0] that unfolding um by simp
    show "low (s\<lparr>mem := m\<rparr>) a = low s a" if "a < 0xC0000000" for a using m(4) pu(3) [of 0 0 a] that unfolding um by simp
    fix i assume i: "i < nframes s"
    then have le: "i \<le> 0x100000" using Suc.prems(2) by simp
    consider "c < i" | "i = c" | "i < c" by linarith
    then show "if c \<le> i
      then fw (s\<lparr>mem := m\<rparr>) i 0 = (if ram_used fend i then 1 else 0) \<and> fw (s\<lparr>mem := m\<rparr>) i 4 = fw s i 4 \<and>
        fw (s\<lparr>mem := m\<rparr>) i 8 = (if ram_used fend i then of_nat (fa i) else fw s i 8)
      else \<forall>off \<in> word_offsets. fw (s\<lparr>mem := m\<rparr>) i off = fw s i off"
      by cases (use m(5) [rule_format, OF i] fu [OF le] offs in \<open>auto simp: um\<close>)
  qed
qed

lemma init_ram_frames_spec:
  assumes ok: "paging_ok s" and n: "nframes s \<le> 0x100000"
    and start: "frames_meta_start_vaddr (g_frames_context s) = FRAMES_START_VADDR"
    and fend_def: "fend = get_physaddr page_dir (frames_meta_end_vaddr (g_frames_context s)) s"
  shows "\<exists>s'. init_ram_frames page_dir s = s' \<and> paging_ok s' \<and> mm_keeps s s' \<and> g_kds_size s' = g_kds_size s \<and>
    (\<forall>q < 0x100000. pte_w s' q = pte_w s q) \<and>
    (\<forall>i < nframes s. fw s' i 0 = (if ram_used fend i then 1 else 0) \<and> fw s' i 4 = 0 \<and>
      fw s' i 8 = (if ram_used fend i then of_nat (fa i) else 0))"
proof -
  have pd: "3222274048 \<le> pdn s" "pdn s + 4096 \<le> 3225419776" using paging_ok_placed [OF ok] by (simp_all add: pd_placed_def)
  define m0 where "m0 = memset (mem s) (of_nat 0xC0800000) 0 (of_nat (12 * nframes s))"
  let ?s = "s\<lparr>mem := m0\<rparr>"
  have count: "frames_count (g_frames_context s) * 12 = of_nat (12 * nframes s)" by (simp add: nframes_def)
  have out: "load32 m0 (of_nat y) = load32 (mem s) (of_nat y)" if "y + 4 \<le> 0xC0800000" for y
    unfolding m0_def by (rule load32_memset_out) (use that n in auto)
  have v0: "pde_w ?s k = pde_w s k" "pte_w ?s q = pte_w s q" if "k < 1024" "q < 0x100000" for k q
    using out [of "pdn s + 4 * k"] out [of "pta q"] that pd by (auto simp: pde_w_def pdn_def pte_w_def pta_def simp del: of_nat_add)
  have l0: "low ?s a = low s a" if "a < 0xC0000000" for a
    using that n memset_nat [of "0xC0800000" "12 * nframes s" a "mem s" 0] by (simp add: low_def m0_def)
  have f0: "fw ?s i off = 0" if "i < nframes s" "off \<in> word_offsets" for i off
    unfolding fw_def mem_upd m0_def
    by (rule load32_memset_in) (use that n in \<open>auto simp: fa_def word_offsets_def\<close>)
  have run: "init_ram_frames page_dir s = init_ram_frames_loop fend (of_nat 0) ?s"
    unfolding init_ram_frames_def Let_def start fend_def [symmetric] count m0_def by (simp add: layout_values)
  have pds: "pd_placed ?s" using paging_ok_placed [OF ok] by (simp add: pd_placed_def pdn_def)
  have ns: "nframes ?s = nframes s" by (simp add: nframes_def)
  obtain m where m: "init_ram_frames_loop fend (of_nat 0) ?s = ?s\<lparr>mem := m\<rparr>"
    "\<forall>k < 1024. pde_w (?s\<lparr>mem := m\<rparr>) k = pde_w ?s k" "\<forall>q < 0x100000. pte_w (?s\<lparr>mem := m\<rparr>) q = pte_w ?s q"
    "\<forall>a < 0xC0000000. low (?s\<lparr>mem := m\<rparr>) a = low ?s a"
    "\<forall>i < nframes s. fw (?s\<lparr>mem := m\<rparr>) i 0 = (if ram_used fend i then 1 else 0) \<and> fw (?s\<lparr>mem := m\<rparr>) i 4 = fw ?s i 4 \<and>
        fw (?s\<lparr>mem := m\<rparr>) i 8 = (if ram_used fend i then of_nat (fa i) else fw ?s i 8)"
    using init_ram_frames_loop_spec [OF pds, of 0 fend] n start unfolding ns by auto
  show ?thesis
  proof (intro exI [of _ "s\<lparr>mem := m\<rparr>"] conjI)
    show "init_ram_frames page_dir s = s\<lparr>mem := m\<rparr>" using m(1) run by simp
    show "paging_ok (s\<lparr>mem := m\<rparr>)" by (rule paging_ok_cong [OF ok]) (use m(2) v0(1) [of _ 0] in auto)
    show "mm_keeps s (s\<lparr>mem := m\<rparr>)" using m(4) l0 by (simp add: mm_keeps_def)
    show "\<forall>q < 0x100000. pte_w (s\<lparr>mem := m\<rparr>) q = pte_w s q" using m(3) v0(2) [of 0] by simp
    show "\<forall>i < nframes s. fw (s\<lparr>mem := m\<rparr>) i 0 = (if ram_used fend i then 1 else 0) \<and> fw (s\<lparr>mem := m\<rparr>) i 4 = 0 \<and>
      fw (s\<lparr>mem := m\<rparr>) i 8 = (if ram_used fend i then of_nat (fa i) else 0)"
      using m(5) f0 by (simp add: word_offsets_def)
  qed simp
qed

subsection \<open>The boot sequence\<close>

lemma paging_ok_fields [simp]: "paging_ok (s\<lparr>g_frames_context := fc\<rparr>) = paging_ok s"
  by (simp add: paging_ok_def pd_placed_def pdn_def pde_w_def)

lemma nframes_bound: "unat ((w :: u32) div 0x1000) \<le> 0xFFFFF"
  using less_mult_imp_div_less [of "unat w" "0x100000" "0x1000"] unat_lt_32 [of w] by (simp add: unat_div)

lemma setup_frames_addrs_spec:
  assumes ok: "paging_ok s" and dir: "page_dir = f_vaddr (g_frame_page_directory s)" and mp: "mp \<noteq> NULL"
  shows "\<exists>s'. setup_frames_addrs page_dir mp s = Some s' \<and> paging_ok s' \<and>
    g_frame_page_directory s' = g_frame_page_directory s \<and> g_kds_size s' = g_kds_size s \<and>
    nframes s' = unat ((mmap_length_low mp s - KERNEL_SIZE_IN_RAM) div FRAME_SIZE) \<and> nframes s' \<le> 0xFFFFF \<and>
    frames_meta_start_vaddr (g_frames_context s') = FRAMES_START_VADDR \<and>
    (\<forall>q < 0xC0800. pte_w s' q = pte_w s q) \<and> (\<forall>a < 0xC0000000. low s' a = low s a) \<and>
    fc_map (g_frames_context s') = mp \<and> frames_meta_end_vaddr (g_frames_context s') = of_nat (0xC0800000 + 12 * nframes s') \<and>
    (12 * nframes s' mod 0x400000 \<noteq> 0 \<longrightarrow> (\<forall>q < pages_of (12 * nframes s').
       bit (pde_w s' ((0xC0800 + q) div 1024)) 0 \<and> pte_w s' (0xC0800 + q) = frame_pte (0xC0800 + q)))"
proof -
  let ?nb = "(mmap_length_low mp s - KERNEL_SIZE_IN_RAM) div FRAME_SIZE"
  let ?fc = "\<lparr>fc_map = mp, frames_meta_start_vaddr = FRAMES_START_VADDR,
                   frames_meta_end_vaddr = FRAMES_START_VADDR + ?nb * 12, frames_count = ?nb\<rparr>"
  let ?s = "s\<lparr>g_frames_context := ?fc\<rparr>"
  have nb: "unat ?nb \<le> 0xFFFFF" using nframes_bound by (simp add: FRAME_SIZE_def)
  have len: "unat (?nb * 12) = 12 * unat ?nb" using nb by (simp add: unat_word_ariths)
  with nb have sz: "unat (?nb * 12) \<le> 0xC00000" by simp
  have oks: "paging_ok ?s" and dirs: "page_dir = f_vaddr (g_frame_page_directory ?s)" using ok dir by simp_all
  obtain s' where s': "init_page_directory_for_frames page_dir (?nb * 12) ?s = s'" "paging_ok s'" "mm_keeps ?s s'"
    "g_kds_size s' = g_kds_size ?s" "\<forall>q < 0xC0800. pte_w s' q = pte_w ?s q"
    "12 * unat ?nb mod 0x400000 \<noteq> 0 \<longrightarrow> (\<forall>q < pages_of (12 * unat ?nb).
       bit (pde_w s' ((0xC0800 + q) div 1024)) 0 \<and> pte_w s' (0xC0800 + q) = frame_pte (0xC0800 + q))"
    using init_page_directory_for_frames_spec [OF oks dirs sz] unfolding len by blast
  have "setup_frames_addrs page_dir mp s = Some s'"
    using mp s'(1) by (simp add: setup_frames_addrs_def Let_def)
  moreover have "pte_w ?s q = pte_w s q" "low ?s a = low s a" for q a by (simp_all add: pte_w_def low_def)
  moreover have "FRAMES_START_VADDR + ?nb * 12 = of_nat (0xC0800000 + 12 * unat ?nb)" by (simp add: layout_values algebra_simps)
  ultimately show ?thesis
    using s'(2-6) nb by (simp add: mm_keeps_def nframes_def del: of_nat_add of_nat_mult)
qed

text \<open>
  The page directory after \<open>finalize_pagination\<close>: it maps the two 4 MB pages of the kernel
  and nothing else.
\<close>

definition dir_ready :: "u32 \<Rightarrow> 'a kmem_scheme \<Rightarrow> bool" where
  "dir_ready page_dir s \<longleftrightarrow> pd_placed s \<and>
     g_frame_page_directory s = \<lparr>f_ref_count = 1, f_addr = page_dir - SYSTEM_ADDR_BASE, f_vaddr = page_dir\<rparr> \<and>
     (\<forall>k \<in> kernel_pdes. bit (pde_w s k) 0 \<and> bit (pde_w s k) 7) \<and>
     (\<forall>k < 1024. k \<notin> kernel_pdes \<longrightarrow> pde_w s k = 0)"

lemma dir_ready_cong:
  "g_frame_page_directory s' = g_frame_page_directory s \<Longrightarrow> mem s' = mem s \<Longrightarrow> dir_ready page_dir s' = dir_ready page_dir s"
  by (simp add: dir_ready_def pd_placed_def pdn_def pde_w_def)

lemma boot_writes_low:
  assumes "dir_placed page_dir" and "a < 0xC0100000"
  shows "low (init_page_directory page_dir s) a = low s a"
    and "finalize_pagination page_dir s = Some s' \<Longrightarrow> low s' a = low s a"
proof -
  let ?n = "unat page_dir"
  have n: "0xC0100000 \<le> ?n" "?n + 4096 \<le> 0xC0400000" using assms(1) by (simp_all add: dir_placed_def)
  have addr: "id_window (page_dir - SYSTEM_ADDR_BASE) = of_nat ?n"
    "id_window (page_dir - SYSTEM_ADDR_BASE + 4 * KERNEL_PAGE_DIRECTORY_INDEX) = of_nat (?n + 4 * 768)"
    "id_window (page_dir - SYSTEM_ADDR_BASE + 4 * PAGE_TABLES_DIRECTORY_INDEX) = of_nat (?n + 4 * 769)"
    by (simp_all add: id_window_def layout_values)
  have st: "store32 m (of_nat (?n + off)) v (of_nat a) = m (of_nat a)" if "off \<le> 4092" for m v off
    by (rule store32_nat_other) (use that n assms(2) in auto)
  have ms: "memset m (of_nat ?n) 0 (of_nat 4096) (of_nat a) = m (of_nat a)" for m
    using memset_nat [of ?n 4096 a m 0] n assms(2) by simp
  have sz: "(1024 * 4 :: u32) = of_nat 4096" by simp
  show "low (init_page_directory page_dir s) a = low s a"
    unfolding init_page_directory_def Let_def st_def addr sz low_def mem_upd using st [of 0] st [of "4 * 768"] st [of "4 * 769"] ms
    by (simp only: mem_upd add_0_right)
  show "low s' a = low s a" if "finalize_pagination page_dir s = Some s'"
    using that st [of 0] unfolding finalize_pagination_def Let_def addr
    by (auto simp: register_irq_handler_def disable_cache_def st_def low_def split: if_splits)
qed

lemma finalize_ok:
  assumes "dir_placed page_dir" and "length (g_handlers s) = IDT_SIZE"
  obtains s1 where "finalize_pagination page_dir (init_page_directory page_dir s) = Some s1" "dir_ready page_dir s1"
    "g_kds_size s1 = g_kds_size s" "\<forall>a < 0xC0100000. low s1 a = low s a" "length (g_handlers s1) = IDT_SIZE"
    "kmem.more s1 = kmem.more s" "uart_addr s1 = uart_addr s"
proof -
  let ?s0 = "init_page_directory page_dir s"
  have s0: "g_handlers ?s0 = g_handlers s" "g_kds_size ?s0 = g_kds_size s" "kmem.more ?s0 = kmem.more s" "uart_addr ?s0 = uart_addr s"
    by (simp_all add: init_page_directory_def st_def Let_def)
  obtain s1 where s1: "finalize_pagination page_dir ?s0 = Some s1"
    "g_frame_page_directory s1 = \<lparr>f_ref_count = 1, f_addr = page_dir - SYSTEM_ADDR_BASE, f_vaddr = page_dir\<rparr>"
    "\<forall>k < 1024. pde_w s1 k = (if k = 0 then 0 else dir_w page_dir ?s0 k)" "g_kds_size s1 = g_kds_size s" "kmem.more s1 = kmem.more s"
    using finalize_pagination_entries [OF assms(1), of ?s0] s0 assms(2) by auto
  have pd: "pd_placed s1" using assms(1) s1(2) by (simp add: pd_placed_def pdn_def dir_placed_def)
  have pdes: "pde_w s1 k = (if k = 768 then kernel_pde 0 else if k = 769 then kernel_pde 0x00400000 else 0)" if "k < 1024" for k
    using s1(3) init_page_directory_entries [OF assms(1) that, of s] that by auto
  have bits: "bit (0x83 :: u32) 0" "bit (0x83 :: u32) 7" "bit (0x400083 :: u32) 0" "bit (0x400083 :: u32) 7"
    by simp_all
  have kern: "bit (pde_w s1 k) 0 \<and> bit (pde_w s1 k) 7" if "k \<in> kernel_pdes" for k
    using that pdes [of k] bits unfolding kernel_pdes_def kernel_pde_values by auto
  have rest: "pde_w s1 k = 0" if "k < 1024" "k \<notin> kernel_pdes" for k
    using that pdes by (simp add: kernel_pdes_def)
  have "length (g_handlers s1) = IDT_SIZE" "uart_addr s1 = uart_addr s"
    using s1(1) s0 assms(2) by (auto simp: finalize_pagination_def register_irq_handler_def disable_cache_def st_def Let_def split: if_splits)
  moreover have "\<forall>a < 0xC0100000. low s1 a = low s a" using boot_writes_low [OF assms(1)] s1(1) by metis
  moreover have "dir_ready page_dir s1" using pd s1(2) kern rest by (simp add: dir_ready_def)
  ultimately show ?thesis using s1 that by blast
qed

lemma tables_ok:
  assumes "dir_ready page_dir s"
  shows "paging_ok (init_page_tables s)" "tables_empty (init_page_tables s)" "page_dir = f_vaddr (g_frame_page_directory (init_page_tables s))"
    "g_kds_size (init_page_tables s) = g_kds_size s" "\<And>a. a < 0xC0100000 \<Longrightarrow> low (init_page_tables s) a = low s a"
    "\<exists>m. init_page_tables s = s\<lparr>mem := m\<rparr>"
proof -
  have pd: "pd_placed s" and g: "g_frame_page_directory s = \<lparr>f_ref_count = 1, f_addr = page_dir - SYSTEM_ADDR_BASE, f_vaddr = page_dir\<rparr>"
    and kern: "\<And>k. k \<in> kernel_pdes \<Longrightarrow> bit (pde_w s k) 0 \<and> bit (pde_w s k) 7"
    and rest: "\<And>k. k < 1024 \<Longrightarrow> k \<notin> kernel_pdes \<Longrightarrow> pde_w s k = 0"
    using assms by (auto simp: dir_ready_def)
  have fr: "f_addr (g_frame_page_directory s) = f_vaddr (g_frame_page_directory s) - SYSTEM_ADDR_BASE" using g by simp
  note pt = init_page_tables_ok [OF pd fr kern rest]
  show "page_dir = f_vaddr (g_frame_page_directory (init_page_tables s))" using pt(3) g by (simp add: mm_keeps_def)
  show "paging_ok (init_page_tables s)" "tables_empty (init_page_tables s)" "g_kds_size (init_page_tables s) = g_kds_size s"
    "\<And>a. a < 0xC0100000 \<Longrightarrow> low (init_page_tables s) a = low s a" "\<exists>m. init_page_tables s = s\<lparr>mem := m\<rparr>"
    using pt by blast+
qed

lemma pool_ok:
  assumes "paging_ok s" and "tables_empty s" and dir: "page_dir = f_vaddr (g_frame_page_directory s)" and "g_kds_size s = 0"
    and "mp \<noteq> NULL"
  obtains s2 where "setup_frames_addrs page_dir mp s = Some s2" "brk_ok (init_ram_frames page_dir s2)"
    "kds (init_ram_frames page_dir s2) = 0" "f_vaddr (get_kpd_frame (init_ram_frames page_dir s2)) = page_dir"
    "\<forall>q < 0xC0800. pte_w (init_ram_frames page_dir s2) q = 0"
proof -
  obtain s3 where s3: "setup_frames_addrs page_dir mp s = Some s3" "paging_ok s3" "g_kds_size s3 = 0"
    "g_frame_page_directory s3 = g_frame_page_directory s"
    "nframes s3 \<le> 0xFFFFF" "frames_meta_start_vaddr (g_frames_context s3) = FRAMES_START_VADDR"
    "\<forall>q < 0xC0800. pte_w s3 q = pte_w s q"
    using setup_frames_addrs_spec [OF assms(1) dir assms(5)] assms(4) by auto
  obtain s4 where s4: "init_ram_frames page_dir s3 = s4" "paging_ok s4" "mm_keeps s3 s4" "g_kds_size s4 = 0"
    "\<forall>q < 0x100000. pte_w s4 q = pte_w s3 q"
    using init_ram_frames_spec [OF s3(2) _ s3(6) refl, of page_dir] s3(3,5) by auto
  have "brk_ok s4"
    using s4 s3(5) by (auto simp: brk_ok_def frames_ok_def nframes_def mm_keeps_def kds_def pages_of_def
        segment_present_def KDS_BASE_def KDS_TOP_def)
  moreover have "\<forall>q < 0xC0800. pte_w s4 q = 0"
    using s4(5) s3(7) assms(2) by (simp add: tables_empty_def)
  moreover have "kds s4 = 0" "f_vaddr (get_kpd_frame s4) = page_dir"
    using s4(3,4) s3(4) dir by (auto simp: kds_def get_kpd_frame_def mm_keeps_def)
  ultimately show ?thesis using that [OF s3(1)] unfolding s4(1) by blast
qed

lemma boot_ok:
  assumes "dir_placed page_dir" and "length (g_handlers s) = IDT_SIZE" and "g_kds_size s = 0" and "mp \<noteq> NULL"
  shows "\<exists>s1 s2. finalize_pagination page_dir (init_page_directory page_dir s) = Some s1 \<and>
    setup_frames_addrs page_dir mp (init_page_tables s1) = Some s2 \<and> brk_ok (init_ram_frames page_dir s2) \<and>
    kds (init_ram_frames page_dir s2) = 0 \<and> f_vaddr (get_kpd_frame (init_ram_frames page_dir s2)) = page_dir \<and>
    (\<forall>q < 0xC0800. pte_w (init_ram_frames page_dir s2) q = 0)"
proof (rule finalize_ok [OF assms(1,2)])
  fix s1 assume s1: "finalize_pagination page_dir (init_page_directory page_dir s) = Some s1" "dir_ready page_dir s1"
    "g_kds_size s1 = g_kds_size s"
  then have "g_kds_size s1 = 0" using assms(3) by simp
  with tables_ok(4) [OF s1(2)] have "g_kds_size (init_page_tables s1) = 0" by simp
  from pool_ok [OF tables_ok(1-3) [OF s1(2)] this assms(4)] show ?thesis using s1(1) by metis
qed

text \<open>
  A machine as the boot loader leaves it, with all memory and tables clear, and the same
  machine after the boot code.
\<close>

definition blank_kernel :: "'a \<Rightarrow> 'a kmem_scheme" where
  "blank_kernel x =
     \<lparr>trace = [], mem = (\<lambda>_. 0), uart_addr = 0x3F8, disp_bytes = 0,
      g_idt = replicate IDT_SIZE null_idt_entry, g_handlers = replicate IDT_SIZE None, idt_register = None,
      int_enabled = False, g_frame_page_directory = \<lparr>f_ref_count = 0, f_addr = 0, f_vaddr = 0\<rparr>, g_kds_size = 0,
      g_frames_context = \<lparr>fc_map = 0, frames_meta_start_vaddr = 0, frames_meta_end_vaddr = 0, frames_count = 0\<rparr>,
      invlpg_log = [], cr0 = 0, \<dots> = x\<rparr>"

definition boot_mm :: "u32 \<Rightarrow> u32 \<Rightarrow> 'a kmem_scheme \<Rightarrow> 'a kmem_scheme option" where
  "boot_mm page_dir mp s =
     do {
       s \<leftarrow> finalize_pagination page_dir (init_page_directory page_dir s);
       s \<leftarrow> setup_frames_addrs page_dir mp (init_page_tables s);
       Some (init_ram_frames page_dir s)
     }"

definition booted :: "'a \<Rightarrow> 'a kmem_scheme" where
  "booted x = the (boot_mm 0xC0101000 0xC0009000 (blank_kernel x))"

lemma booted_ok: "brk_ok (booted x)" "kds (booted x) = 0" "f_vaddr (g_frame_page_directory (booted x)) = 0xC0101000"
  and booted_tables: "\<And>q. q < 0xC0800 \<Longrightarrow> pte_w (booted x) q = 0"
proof -
  have "dir_placed 0xC0101000" by (simp add: dir_placed_def)
  from boot_ok [OF this, of "blank_kernel x" "0xC0009000"]
  show "brk_ok (booted x)" "kds (booted x) = 0" "f_vaddr (g_frame_page_directory (booted x)) = 0xC0101000"
    "\<And>q. q < 0xC0800 \<Longrightarrow> pte_w (booted x) q = 0"
    by (auto simp: booted_def boot_mm_def blank_kernel_def get_kpd_frame_def)
qed

text \<open>The same machine with a pool of 16 frames.\<close>

definition booted_16 :: "'a \<Rightarrow> 'a kmem_scheme" where
  "booted_16 x = (booted x)\<lparr>g_frames_context := \<lparr>fc_map = 0xC0009000, frames_meta_start_vaddr = FRAMES_START_VADDR,
     frames_meta_end_vaddr = FRAMES_START_VADDR + 192, frames_count = 16\<rparr>\<rparr>"



subsection \<open>What the MMU sees\<close>

lemma page_split:
  assumes "p < 0x100000" and "o' < 4096"
  shows "drop_bit 22 (of_nat (4096 * p + o') :: u32) = of_nat (p div 1024)"
    and "drop_bit 12 (of_nat (4096 * p + o') :: u32) AND 0x3FF = of_nat (p mod 1024)"
    and "(of_nat (4096 * p + o') :: u32) AND 0xFFF = of_nat o'"
proof -
  have lt: "4096 * p + o' < 4294967296" using assms by simp
  have d: "drop_bit n (of_nat m :: u32) = of_nat (m div 2 ^ n)" if "m < 4294967296" for m n
  proof -
    have "unat (drop_bit n (of_nat m :: u32)) = drop_bit n m"
      using that by (simp add: unsigned_drop_bit_eq take_bit_nat_eq_self unat_of_nat_32)
    moreover have "unat (of_nat (m div 2 ^ n) :: u32) = m div 2 ^ n"
      using that by (intro unat_of_nat_32) (rule le_less_trans [OF div_le_dividend])
    ultimately show ?thesis by (simp only: word_unat_eq_iff drop_bit_eq_div)
  qed
  have q: "(4096 * p + o') div 4096 = p" using assms(2) by simp
  have "(4096 * p + o') div 4194304 = (4096 * p + o') div 4096 div 1024" by (simp add: div_mult2_eq [symmetric])
  then show "drop_bit 22 (of_nat (4096 * p + o') :: u32) = of_nat (p div 1024)"
    using q d [OF lt, of 22] by simp
  have and_mask: "(of_nat m :: u32) AND mask n = of_nat (m mod 2 ^ n)" if "m < 4294967296" for m n
  proof -
    have "unat (take_bit n (of_nat m :: u32)) = take_bit n m"
      using that by (simp add: unsigned_take_bit_eq unat_of_nat_32)
    moreover have "unat (of_nat (m mod 2 ^ n) :: u32) = m mod 2 ^ n"
      using that by (intro unat_of_nat_32) (rule le_less_trans [OF mod_less_eq_dividend])
    ultimately show ?thesis by (simp only: word_unat_eq_iff take_bit_eq_mask [symmetric] take_bit_eq_mod)
  qed
  have m10: "(0x3FF :: u32) = mask 10" by (simp add: mask_eq_exp_minus_1)
  show "drop_bit 12 (of_nat (4096 * p + o') :: u32) AND 0x3FF = of_nat (p mod 1024)"
    using q d [OF lt, of 12] and_mask [of p 10] assms(1) unfolding m10 by simp
  have "(4096 * p + o') mod 4096 = o'" using assms(2) by simp
  then show "(of_nat (4096 * p + o') :: u32) AND 0xFFF = of_nat o'"
    using and_mask [OF lt, of 12] unfolding mask_values(4) by simp
qed


lemma page_join:
  "(of_nat (4096 * x) :: u32) AND 0xFFFFF000 = of_nat (4096 * x)"
  "off < 4096 \<Longrightarrow> (of_nat (4096 * x) :: u32) OR of_nat off = of_nat (4096 * x + off)"
proof -
  have x: "(of_nat (4096 * x) :: u32) = push_bit 12 (of_nat x)" by (simp add: push_bit_eq_mult)
  show "(of_nat (4096 * x) :: u32) AND 0xFFFFF000 = of_nat (4096 * x)"
    unfolding x mask_values by (rule bit_word_eqI) (auto simp: bit_simps)
  assume "off < 4096"
  then have "(of_nat off :: u32) = of_nat off AND mask 12"
    using page_split(3) [of 0 off] unfolding mask_values by simp
  then have "n < 12" if "bit (of_nat off :: u32) n" for n using that by (metis bit_and_iff bit_mask_iff)
  then have "push_bit 12 (of_nat x) + (of_nat off :: u32) = push_bit 12 (of_nat x) OR of_nat off"
    by (intro disjoint_bits_or) (metis bit_push_bit_iff leD)
  then show "(of_nat (4096 * x) :: u32) OR of_nat off = of_nat (4096 * x + off)"
    using x by simp
qed

lemma walk_page:
  assumes ok: "paging_ok s" and dir: "page_dir = f_vaddr (g_frame_page_directory s)"
    and p: "p < 0x100000" "p div 1024 \<notin> kernel_pdes" and off: "o' < 4096"
  shows "walk_pde page_dir (of_nat (4096 * p + o')) s = pde_w s (p div 1024)"
    and "walk_pte page_dir (of_nat (4096 * p + o')) s = pte_w s p" and "\<not> bit (pde_w s (p div 1024)) 7"
proof -
  have k: "p div 1024 < 1024" using p(1) by simp
  note sp = page_split [OF p(1) off]
  show pde: "walk_pde page_dir (of_nat (4096 * p + o')) s = pde_w s (p div 1024)"
    unfolding walk_pde_def pde_w_def sp(1) using dir by (simp add: pdn_def)
  have "id_window (pde_w s (p div 1024) AND 0xFFFFF000) = PDE_PTADDR_TO_VADDR (pde_ptaddr (pde_w s (p div 1024)))"
    by (simp add: id_window_def PDE_PTADDR_TO_VADDR_def table_address)
  then show "walk_pte page_dir (of_nat (4096 * p + o')) s = pte_w s p"
    unfolding walk_pte_def pde sp(2) pte_w_def using pte_address [OF p(1) paging_okD(4) [OF ok k p(2)]] by simp
  show "\<not> bit (pde_w s (p div 1024)) 7" by (rule paging_okD(3) [OF ok k p(2)])
qed

lemma mmu_walk_page:
  assumes "paging_ok s" and "page_dir = f_vaddr (g_frame_page_directory s)"
    and p: "p < 0x100000" "p div 1024 \<notin> kernel_pdes" and off: "o' < 4096"
  shows "mmu_walk page_dir (of_nat (4096 * p + o')) s =
    (if bit (pde_w s (p div 1024)) 0 \<and> bit (pte_w s p) 0 then Some ((pte_w s p AND 0xFFFFF000) OR of_nat o') else None)"
  unfolding mmu_walk_def Let_def walk_page(1,2) [OF assms] page_split(3) [OF p(1) off] using walk_page(3) [OF assms] by auto

lemma map_entry_walk:
  "bit (map_entry a (PF_PRES OR PF_RW) v) 0" "map_entry a (PF_PRES OR PF_RW) v AND 0xFFFFF000 = a AND 0xFFFFF000"
  subgoal by (rule map_entry_present)
  subgoal unfolding map_entry_def mask_values
    by (rule bit_word_eqI) (auto simp: pte_flags_set_def pte_addr_set_def PTE_ADDR_HIGH_def bit_simps)
  done

lemma frame_pte_walk: "bit (frame_pte q) 0" "frame_pte q AND 0xFFFFF000 = of_nat (0x800000 + 4096 * (q - 0xC0800)) AND 0xFFFFF000"
  using map_entry_walk [of "of_nat (0x800000 + 4096 * (q - 0xC0800))" 0] unfolding frame_pte_def map_entry_def by simp_all

text \<open>C12. After a successful \<open>map_pages\<close> with the flags present and writable, the MMU translates every address
  of the pages to the physical address that the frame's entry holds, at the same offset.\<close>

theorem map_pages_translates:
  assumes "paging_ok s" and "p \<le> 0xC0000" and "i + n \<le> 0x100000" and "n < 0x100000"
    and "map_pages (get_kpd_frame s) (of_nat (4096 * p)) (get_frame_at (of_nat i)) (of_nat n) (PF_PRES OR PF_RW) s = Some (SUCCES, s')"
    and "q < n" and "off < 4096"
  shows "mmu_walk (f_vaddr (get_kpd_frame s')) (of_nat (4096 * (p + q) + off)) s' =
    Some ((fr_addr (get_frame_at (of_nat (i + q))) s AND 0xFFFFF000) OR of_nat off)"
  using assms(1-4)
proof (rule map_pages_cases [of s p i n "PF_PRES OR PF_RW"])
  fix m r u
  assume run: "map_pages (get_kpd_frame s) (of_nat (4096 * p)) (get_frame_at (of_nat i)) (of_nat n) (PF_PRES OR PF_RW) s = Some (r, u)"
    and m: "m \<le> n" "p + m \<le> 0xC0000" and res: "if m = n then r = SUCCES else r = FAILED \<and> \<not> mappable s (p + m)"
    and mapped: "mapped p i m (PF_PRES OR PF_RW) s u" and ok: "paging_ok u"
  from run res assms(5) have u: "u = s'" and mn: "m = n" by (auto split: if_splits)
  let ?q = "p + q"
  have q: "?q < 0xC0000" using m mn assms(6) by simp
  have "bit (pde_w s' (?q div 1024)) 0" "pte_w s' ?q = map_entry (fw s (i + q) 4) (PF_PRES OR PF_RW) (pte_w s ?q)"
    using mapped q mn assms(6) unfolding mapped_def u by auto
  moreover have "fw s (i + q) 4 = fr_addr (get_frame_at (of_nat (i + q))) s" by (rule address_rules(7) [OF refl, symmetric])
  ultimately show ?thesis
    using mmu_walk_page [OF ok [unfolded u] refl _ user_pde [OF q] assms(7)] q map_entry_walk
    by (simp add: get_kpd_frame_def del: of_nat_add of_nat_mult)
qed

theorem map_pages_translates_witness:
  "\<exists>s'. map_pages (get_kpd_frame (booted ())) (of_nat (4096 * 0x8000)) (get_frame_at (of_nat 7)) (of_nat 2)
      (PF_PRES OR PF_RW) (booted ()) = Some (SUCCES, s') \<and>
    mmu_walk (f_vaddr (get_kpd_frame s')) (of_nat (4096 * (0x8000 + 1) + 5)) s' =
      Some ((fr_addr (get_frame_at (of_nat (7 + 1))) (booted ()) AND 0xFFFFF000) OR of_nat 5)"
proof -
  have ok: "paging_ok (booted ())" using booted_ok(1) [of "()"] by (simp add: brk_ok_def)
  have all: "mappable (booted ()) q" if "q < 0xC0000" for q
    using booted_tables [of q "()"] that by (simp add: mappable_def user_pde)
  obtain s' where run: "map_pages (get_kpd_frame (booted ())) (of_nat (4096 * 0x8000)) (get_frame_at (of_nat 7)) (of_nat 2)
      (PF_PRES OR PF_RW) (booted ()) = Some (SUCCES, s')"
    using ok by (rule map_pages_cases [of "booted ()" "0x8000" 7 2 "PF_PRES OR PF_RW"]) (use all in \<open>auto split: if_splits\<close>)
  then show ?thesis using map_pages_translates [OF ok _ _ _ run, of 1 5] by (intro exI [of _ s']) simp
qed



text \<open>C6. \<open>sbrk\<close> with a positive size always returns. It keeps the invariants and the contents of memory below the
  kernel. Either it returns \<open>-1\<close> and the segment is as before, or it returns the old end of the
  segment, which grows by exactly the size asked for, ends below the kernel and is present in the
  page tables throughout.\<close>

theorem sbrk_extends_segment:
  assumes "brk_ok s" and "0 < n" and "n < 0x80000000"
  shows "\<exists>r s'. sbrk (int n) s = Some (r, s') \<and> brk_ok s' \<and> mm_keeps s s' \<and>
    (r = MINUS_ONE \<and> kds s' = kds s \<or> r = of_nat (KDS_BASE + 4096 * pages_of (kds s)) \<and> kds s' = kds s + n)"
  using assms by (rule sbrk_grow)

theorem sbrk_extends_segment_witness:
  "\<exists>r s'. sbrk (int 4104) (booted ()) = Some (r, s') \<and> brk_ok s' \<and> mm_keeps (booted ()) s' \<and>
    (r = MINUS_ONE \<and> kds s' = kds (booted ()) \<or>
     r = of_nat (KDS_BASE + 4096 * pages_of (kds (booted ()))) \<and> kds s' = kds (booted ()) + 4104)"
  by (rule sbrk_extends_segment) (simp_all add: booted_ok)

text \<open>C36. \<open>unmap_pages\<close> on pages below the kernel unmaps nothing: every directory entry, every page table entry and
  every frame is as before. (It looks the page table up with the address field of a 4 MB entry, so
  that it clears words at \<open>0xC0001000\<close> instead.)\<close>

theorem unmap_pages_unmaps_nothing:
  assumes "paging_ok s" and "p + n \<le> 0xC0000"
  shows "same_tables s (unmap_pages (get_kpd_frame s) (of_nat (4096 * p)) (int n) s)"
  using assms by (rule unmap_pages_keeps)

theorem unmap_pages_unmaps_nothing_witness:
  "same_tables (booted ()) (unmap_pages (get_kpd_frame (booted ())) (of_nat (4096 * 0x8000)) (int 3) (booted ()))"
  by (rule unmap_pages_unmaps_nothing) (use booted_ok [of "()"] in \<open>simp_all add: brk_ok_def\<close>)



theorem alloc_frames_first_fit_witness:
  "(\<exists>i s'. first_run (booted_16 ()) 3 i \<and> alloc_frames (int 3) (booted_16 ()) = (SUCCES, Some (get_frame_at (of_nat i)), s') \<and>
      (\<forall>j \<le> 0x100000. rc s' j = (if i \<le> j \<and> j < i + 3 then 1 else rc (booted_16 ()) j)) \<and> nframes s' = nframes (booted_16 ())) \<or>
    (\<forall>i. i + 3 \<le> nframes (booted_16 ()) \<longrightarrow> \<not> free_run (booted_16 ()) i 3) \<and> alloc_frames (int 3) (booted_16 ()) = (FAILED, None, booted_16 ())"
  by (rule alloc_frames_first_fit) (simp_all add: frames_ok_def nframes_def booted_16_def)

theorem alloc_frame_free_frame_witness:
  "(\<forall>i < nframes (booted_16 ()). rc (booted_16 ()) i \<noteq> 0) \<and> alloc_frame (booted_16 ()) = (NULL, booted_16 ()) \<or>
    (\<exists>i s'. first_run (booted_16 ()) 1 i \<and> alloc_frame (booted_16 ()) = (get_frame_at (of_nat i), s') \<and>
      free_frame (get_frame_at (of_nat i)) s' = Some (booted_16 ()))"
  using alloc_frame_free_frame [of "booted_16 ()"] by (auto simp: frames_ok_def nframes_def booted_16_def)

end
