(* ===== verification/HeapRep.thy ===== *)
theory HeapRep
  imports Kmalloc BootPaging
begin

text \<open>
  The kernel heap as a list of blocks, each a payload size and a flag that tells if the
  block is free. The list is laid out in memory without gaps, from behind the
  \<open>t_page_infos\<close> to \<open>max_pos\<close>. This theory gives the representation predicate, the heap's
  invariant and the lemmas on headers that the proofs of the operations use.
\<close>

type_synonym block = "nat \<times> bool"

subsection \<open>Header words\<close>

definition hw :: "'a machine_scheme \<Rightarrow> nat \<Rightarrow> u32" where
  "hw s a = load32 (mem s) (of_nat a)"

definition hst :: "nat \<Rightarrow> u32 \<Rightarrow> 'a machine_scheme \<Rightarrow> 'a machine_scheme" where
  "hst a v s = s\<lparr>mem := store32 (mem s) (of_nat a) v\<rparr>"

lemma accessors:
  "mi_size (of_nat a) s = hw s a" "mi_is_free (of_nat a) s = hw s (a + 4)" "mi_begin (of_nat a) s = hw s (a + 8)"
  "mi_next (of_nat a) s = hw s (a + 12)" "pi_nb_pages (of_nat a) s = hw s a" "pi_max_pos (of_nat a) s = hw s (a + 4)"
  "mi_size_set (of_nat a) v s = hst a v s" "mi_is_free_set (of_nat a) v s = hst (a + 4) v s"
  "mi_begin_set (of_nat a) v s = hst (a + 8) v s" "mi_next_set (of_nat a) v s = hst (a + 12) v s"
  "pi_nb_pages_set (of_nat a) v s = hst a v s" "pi_max_pos_set (of_nat a) v s = hst (a + 4) v s"
  by (simp_all add: mi_size_def mi_is_free_def mi_begin_def mi_next_def pi_nb_pages_def pi_max_pos_def
      mi_size_set_def mi_is_free_set_def mi_begin_set_def mi_next_set_def pi_nb_pages_set_def pi_max_pos_set_def
      hw_def hst_def ld_def st_def)

lemma hw_hst_same [simp]: "hw (hst a v s) a = v"
  by (simp add: hw_def hst_def)

lemma hw_hst_other:
  "a + 4 \<le> b \<or> b + 4 \<le> a \<Longrightarrow> a + 4 \<le> 0xC0000000 \<Longrightarrow> b + 4 \<le> 0xC0000000 \<Longrightarrow> hw (hst a v s) b = hw s b"
  unfolding hw_def hst_def by (simp only: mem_upd, rule load32_store32_nat) auto

lemma low_hst:
  "b < a \<or> a + 4 \<le> b \<Longrightarrow> a + 4 \<le> 0xC0000000 \<Longrightarrow> b < 0xC0000000 \<Longrightarrow> low (hst a v s) b = low s b"
  unfolding low_def hst_def by (simp only: mem_upd, rule store32_nat_other) auto

lemma hst_fields [simp]:
  "first (hst a v s) = first s" "kds (hst a v t) = kds t" "g_kds_size (hst a v t) = g_kds_size t"
  by (simp_all add: hst_def kds_def)

lemma brk_ok_hst [simp]:
  assumes "a + 4 \<le> 0xC0000000"
  shows "brk_ok (hst a v s) = brk_ok s"
proof -
  have pdn: "pdn (hst a v s) = pdn s" by (simp add: hst_def pdn_def)
  have pte: "pte_w (hst a v s) q = pte_w s q" if "q < 0x100000" for q
    unfolding pte_w_def hst_def by (simp only: mem_upd, rule load32_store32_nat) (use assms that in \<open>auto simp: pta_def\<close>)
  have pde: "pde_w (hst a v s) k = pde_w s k" if "k < 1024" "pd_placed s" for k
    unfolding pde_w_def pdn unfolding hst_def
    by (simp only: mem_upd, rule load32_store32_nat) (use assms that in \<open>auto simp: pd_placed_def\<close>)
  have placed: "pd_placed (hst a v s) = pd_placed s" by (simp add: pd_placed_def pdn)
  have fr: "g_frame_page_directory (hst a v s) = g_frame_page_directory s" by (simp add: hst_def)
  have "paging_ok (hst a v s) = paging_ok s"
    using paging_ok_cong [of s "hst a v s"] paging_ok_cong [of "hst a v s" s] pde placed fr by (metis paging_ok_placed)
  moreover have "frames_ok (hst a v s) = frames_ok s" by (simp add: frames_ok_def nframes_def hst_def)
  moreover have "segment_present (hst a v s) = segment_present s" if "KDS_BASE + 4096 * pages_of (kds s) \<le> KDS_TOP"
    using pte that by (auto simp: segment_present_def KDS_BASE_def KDS_TOP_def)
  ultimately show ?thesis by (auto simp: brk_ok_def)
qed

lemma hw_cong:
  assumes "\<And>b. a \<le> b \<Longrightarrow> b < a + 4 \<Longrightarrow> low s' b = low s b"
  shows "hw s' a = hw s a"
  unfolding hw_def by (rule load32_cong_nat) (use assms in \<open>simp add: low_def del: of_nat_add\<close>)

subsection \<open>Lists of blocks\<close>

fun span :: "block list \<Rightarrow> nat" where
  "span [] = 0"
| "span ((n, f) # bs) = 16 + n + span bs"

definition hdr :: "'a machine_scheme \<Rightarrow> nat \<Rightarrow> nat \<Rightarrow> bool \<Rightarrow> bool" where
  "hdr s a n f \<longleftrightarrow> hw s a = of_nat n \<and> hw s (a + 4) = (if f then TRUE else FALSE) \<and>
     hw s (a + 8) = of_nat (a + 16) \<and> hw s (a + 12) = of_nat (a + 16 + n)"

fun blocks_at :: "'a machine_scheme \<Rightarrow> nat \<Rightarrow> block list \<Rightarrow> bool" where
  "blocks_at s a [] \<longleftrightarrow> True"
| "blocks_at s a ((n, f) # bs) \<longleftrightarrow> hdr s a n f \<and> blocks_at s (a + 16 + n) bs"

fun used :: "nat \<Rightarrow> block list \<Rightarrow> (nat \<times> nat) set" where
  "used a [] = {}"
| "used a ((n, f) # bs) = (if f then {} else {(a + 16, n)}) \<union> used (a + 16 + n) bs"

lemma span_append [simp]: "span (xs @ ys) = span xs + span ys"
  by (induction xs rule: span.induct) auto

lemma blocks_at_append [simp]: "blocks_at s a (xs @ ys) \<longleftrightarrow> blocks_at s a xs \<and> blocks_at s (a + span xs) ys"
  by (induction s a xs rule: blocks_at.induct) (auto simp: add_ac)

lemma used_append [simp]: "used a (xs @ ys) = used a xs \<union> used (a + span xs) ys"
  by (induction a xs rule: used.induct) (auto simp: add_ac)

lemma hdr_cong:
  assumes "\<And>b. a \<le> b \<Longrightarrow> b < a + 16 \<Longrightarrow> low s' b = low s b"
  shows "hdr s' a n f = hdr s a n f"
proof -
  have "hw s' (a + off) = hw s (a + off)" if "off + 4 \<le> 16" for off
    by (rule hw_cong) (use assms that in auto)
  from this [of 0] this [of 4] this [of 8] this [of 12] show ?thesis by (simp add: hdr_def)
qed

lemma blocks_at_cong:
  assumes "\<And>b. a \<le> b \<Longrightarrow> b < a + span bs \<Longrightarrow> low s' b = low s b"
  shows "blocks_at s' a bs = blocks_at s a bs"
  using assms
proof (induction s a bs rule: blocks_at.induct)
  case (2 s a n f bs)
  have "hdr s' a n f = hdr s a n f" by (rule hdr_cong) (use 2(2) in auto)
  moreover have "blocks_at s' (a + 16 + n) bs = blocks_at s (a + 16 + n) bs" by (rule "2.IH") (use 2(2) in auto)
  ultimately show ?case by simp
qed simp

lemma used_range: "(x, n) \<in> used a bs \<Longrightarrow> a + 16 \<le> x \<and> x + n \<le> a + span bs"
  by (induction a bs rule: used.induct) (auto split: if_splits)

lemma used_disjoint:
  "(x, n) \<in> used a bs \<Longrightarrow> (y, m) \<in> used a bs \<Longrightarrow> x \<noteq> y \<Longrightarrow> x + n \<le> y \<or> y + m \<le> x"
proof (induction a bs rule: used.induct)
  case (2 a n' f bs)
  then show ?case using used_range [of x n "a + 16 + n'" bs] used_range [of y m "a + 16 + n'" bs]
    by (auto split: if_splits)
qed simp

subsection \<open>The invariant of the heap\<close>

text \<open>
  No two neighbouring blocks are free: \<open>free\<close> merges them.
\<close>

definition compact :: "block list \<Rightarrow> bool" where
  "compact bs \<longleftrightarrow> successively (\<lambda>x y. \<not> (snd x \<and> snd y)) bs"

definition HEAP_BASE :: nat where "HEAP_BASE = 0x8000008"

definition heap_ok :: "nat \<Rightarrow> block list \<Rightarrow> 'a heap_scheme \<Rightarrow> bool" where
  "heap_ok k bs s \<longleftrightarrow> brk_ok s \<and> first s = 0x8000000 \<and> kds s = 8 + 4096 * k \<and>
     hw s 0x8000000 = of_nat k \<and> hw s 0x8000004 = of_nat (HEAP_BASE + span bs) \<and> span bs \<le> 4096 * k \<and>
     blocks_at s HEAP_BASE bs \<and> (\<forall>(n, f) \<in> set bs. 0 < n) \<and> compact bs"

text \<open>Before the first allocation the segment is empty.\<close>

definition heap_rep :: "'a heap_scheme \<Rightarrow> block list \<Rightarrow> bool" where
  "heap_rep s bs \<longleftrightarrow> brk_ok s \<and> first s = 0 \<and> kds s = 0 \<and> bs = [] \<or> (\<exists>k. heap_ok k bs s)"

lemma heap_ok_bound:
  assumes "heap_ok k bs s"
  shows "HEAP_BASE + 4096 * k + 4088 \<le> 0xC0000000" and "HEAP_BASE + span bs + 4088 \<le> 0xC0000000"
proof -
  have "pages_of (8 + 4096 * k) = 1 + k" by (subst pages_of_pages) (simp add: pages_of_def)
  then show "HEAP_BASE + 4096 * k + 4088 \<le> 0xC0000000"
    using assms by (auto simp: heap_ok_def brk_ok_def KDS_BASE_def KDS_TOP_def HEAP_BASE_def)
  with assms show "HEAP_BASE + span bs + 4088 \<le> 0xC0000000" by (simp add: heap_ok_def)
qed


lemma consts_nat:
  "SIZEOF_MEM_INFOS = of_nat 16" "SIZEOF_PAGE_INFOS = of_nat 8" "getpagesize = of_nat 4096"
  by (simp_all add: SIZEOF_MEM_INFOS_def SIZEOF_PAGE_INFOS_def getpagesize_def FRAME_SIZE_def)

lemma first_plus: "(0x8000000 :: u32) + SIZEOF_PAGE_INFOS = of_nat HEAP_BASE"
  by (simp add: SIZEOF_PAGE_INFOS_def HEAP_BASE_def)

lemma page_infos_accessors:
  "pi_nb_pages 0x8000000 s = hw s 0x8000000" "pi_max_pos 0x8000000 s = hw s 0x8000004"
  "pi_nb_pages_set 0x8000000 v s = hst 0x8000000 v s" "pi_max_pos_set 0x8000000 v s = hst 0x8000004 v s"
  using accessors(5,6,11,12) [of "0x8000000"] by simp_all

lemma hdr_accessors:
  assumes "hdr s a n f"
  shows "mi_size (of_nat a) s = of_nat n" "mi_is_free (of_nat a) s = (if f then TRUE else FALSE)"
    "mi_begin (of_nat a) s = of_nat (a + 16)" "mi_next (of_nat a) s = of_nat (a + 16 + n)"
  using assms unfolding accessors hdr_def by simp_all

subsection \<open>Walking over the blocks\<close>

text \<open>The best-fit search on lists, with the best block so far (address and size).\<close>

fun best_fit :: "nat \<Rightarrow> nat \<Rightarrow> block list \<Rightarrow> (nat \<times> nat) option \<Rightarrow> (nat \<times> nat) option" where
  "best_fit n a [] acc = acc"
| "best_fit n a ((m, f) # bs) acc = best_fit n (a + 16 + m) bs
     (if f \<and> n \<le> m \<and> (case acc of None \<Rightarrow> True | Some (_, m') \<Rightarrow> m < m') then Some (a, m) else acc)"

definition addr_of :: "(nat \<times> nat) option \<Rightarrow> u32" where
  "addr_of acc = (case acc of None \<Rightarrow> NULL | Some (x, _) \<Rightarrow> of_nat x)"

definition acc_ok :: "'a machine_scheme \<Rightarrow> (nat \<times> nat) option \<Rightarrow> bool" where
  "acc_ok s acc \<longleftrightarrow> (case acc of None \<Rightarrow> True
     | Some (x, m) \<Rightarrow> 0 < x \<and> x + 16 + m < 4294967296 \<and> hw s x = of_nat m)"

lemma search_loop_best:
  assumes "blocks_at s a bs" and "hw s 0x8000004 = of_nat (a + span bs)" and "0 < a" and "a + span bs < 4294967296"
    and "n < 4294967296" and "acc_ok s acc"
  shows "search_loop 0x8000000 (of_nat n) (of_nat a) (addr_of acc) s = Some (addr_of (best_fit n a bs acc))"
  using assms
proof (induction n a bs acc rule: best_fit.induct)
  case (1 n a acc)
  then show ?case by (subst search_loop.simps) (simp add: page_infos_accessors)
next
  case (2 n a m f bs acc)
  have h: "hdr s a m f" using "2.prems"(1) by simp
  note acc = hdr_accessors [OF h]
  have lt: "a < 4294967296" "m < 4294967296" "(of_nat a :: u32) < of_nat (a + span ((m, f) # bs))" "(of_nat a :: u32) \<noteq> 0"
    using "2.prems"(3,4) by (simp_all add: of_nat_less_32 of_nat_eq_0_32 del: of_nat_add)
  have sm: "(of_nat m :: u32) < mi_size (of_nat x) s \<longleftrightarrow> m < m'" if "acc = Some (x, m')" for x m'
    using that "2.prems"(6) lt(2) by (simp add: acc_ok_def accessors of_nat_less_32)
  have x0: "(of_nat x :: u32) \<noteq> 0" if "acc = Some (x, m')" for x m'
    using that "2.prems"(6) by (simp add: acc_ok_def of_nat_eq_0_32)
  let ?better = "f \<and> n \<le> m \<and> (case acc of None \<Rightarrow> True | Some (_, m') \<Rightarrow> m < m')"
  let ?acc = "if ?better then Some (a, m) else acc"
  have guard: "mi_is_free (of_nat a) s = TRUE \<and> mi_size (of_nat a) s \<ge> of_nat n \<and>
      (addr_of acc = NULL \<or> mi_size (of_nat a) s < mi_size (addr_of acc) s) \<longleftrightarrow> ?better"
    using sm x0 "2.prems"(5) lt(2) by (auto simp: acc addr_of_def of_nat_le_32 split: option.splits)
  have "acc_ok s ?acc" using "2.prems"(3,4,6) h by (auto simp: acc_ok_def hdr_def)
  then have "search_loop 0x8000000 (of_nat n) (of_nat (a + 16 + m)) (addr_of ?acc) s =
      Some (addr_of (best_fit n (a + 16 + m) bs ?acc))"
    by (intro "2.IH") (use "2.prems" in \<open>auto simp: add_ac\<close>)
  moreover have "search_loop 0x8000000 (of_nat n) (of_nat a) (addr_of acc) s =
      search_loop 0x8000000 (of_nat n) (of_nat (a + 16 + m)) (addr_of ?acc) s"
  proof -
    have "(if ?better then of_nat a else addr_of acc) = addr_of ?acc" by (simp add: addr_of_def)
    then show ?thesis
      using lt(3,4) "2.prems"(2) by (subst search_loop.simps) (simp only: page_infos_accessors guard acc(4) if_True simp_thms)
  qed
  ultimately show ?case by simp
qed

lemma best_fit_spec:
  "case best_fit n a bs acc of
     None \<Rightarrow> acc = None \<and> (\<forall>(m, f) \<in> set bs. f \<longrightarrow> m < n)
   | Some (x, m) \<Rightarrow> (acc = Some (x, m) \<or> (\<exists>pre post. bs = pre @ (m, True) # post \<and> x = a + span pre \<and> n \<le> m)) \<and>
       (\<forall>(m', f) \<in> set bs. f \<and> n \<le> m' \<longrightarrow> m \<le> m') \<and> (case acc of None \<Rightarrow> True | Some (_, m') \<Rightarrow> m \<le> m')"
proof (induction n a bs acc rule: best_fit.induct)
  case (1 n a acc)
  then show ?case by (auto split: option.splits)
next
  case (2 n a m f bs acc)
  let ?acc = "if f \<and> n \<le> m \<and> (case acc of None \<Rightarrow> True | Some (_, m') \<Rightarrow> m < m') then Some (a, m) else acc"
  show ?case
  proof (cases "best_fit n (a + 16 + m) bs ?acc")
    case None
    with "2.IH" have "?acc = None" "\<forall>(m, f) \<in> set bs. f \<longrightarrow> m < n" by simp_all
    with None show ?thesis by (auto split: option.splits if_splits)
  next
    case (Some p)
    obtain x y where p: "p = (x, y)" by (cases p)
    have ih: "?acc = Some (x, y) \<or> (\<exists>pre post. bs = pre @ (y, True) # post \<and> x = a + 16 + m + span pre \<and> n \<le> y)"
      "\<forall>(m', f) \<in> set bs. f \<and> n \<le> m' \<longrightarrow> y \<le> m'" "case ?acc of None \<Rightarrow> True | Some (_, m') \<Rightarrow> y \<le> m'"
      using "2.IH" Some p by simp_all
    have where': "acc = Some (x, y) \<or> (\<exists>pre post. (m, f) # bs = pre @ (y, True) # post \<and> x = a + span pre \<and> n \<le> y)"
    proof (rule disjE [OF ih(1)])
      assume "?acc = Some (x, y)"
      then show ?thesis by (auto split: if_splits intro: exI [of _ "[]"])
    next
      assume "\<exists>pre post. bs = pre @ (y, True) # post \<and> x = a + 16 + m + span pre \<and> n \<le> y"
      then obtain pre post where "bs = pre @ (y, True) # post" "x = a + 16 + m + span pre" "n \<le> y" by blast
      then show ?thesis by (intro disjI2 exI [of _ "(m, f) # pre"] exI [of _ post]) simp
    qed
    show ?thesis using Some p where' ih(2,3) by (auto split: option.splits if_splits)
  qed
qed

end
