(* ===== verification/HeapProps.thy ===== *)
theory HeapProps
  imports HeapRep
begin

text \<open>
  Correctness of the kernel heap. Every operation refines an operation on the list of
  blocks, keeps the invariant, and leaves the payload of the blocks in use alone.
\<close>

subsection \<open>Signed reading of sizes\<close>

lemma sint_nat: "d < 0x80000000 \<Longrightarrow> sint (of_nat d :: u32) = int d"
  by (simp add: signed_of_nat signed_take_bit_int_eq_self)

lemma sint_of_int_32: "- 0x80000000 \<le> i \<Longrightarrow> i < 0x80000000 \<Longrightarrow> sint (of_int i :: u32) = i"
  by (simp add: signed_of_int signed_take_bit_int_eq_self)

lemma sint_big: "0x80000000 \<le> d \<Longrightarrow> d < 4294967296 \<Longrightarrow> sint (of_nat d :: u32) < 0"
proof (rule ccontr)
  assume d: "0x80000000 \<le> d" "d < 4294967296" and "\<not> sint (of_nat d :: u32) < 0"
  then have pos: "0 \<le> sint (of_nat d :: u32)" by simp
  define e where "e = nat (sint (of_nat d :: u32))"
  have "sint (of_nat d :: u32) < 2 ^ 31" using sint_range_size [of "of_nat d :: u32"] by (simp add: word_size)
  then have e: "e < 0x80000000" by (simp add: e_def nat_less_iff [OF pos])
  have "int e = sint (of_nat d :: u32)" using pos by (simp add: e_def)
  then have "(of_nat e :: u32) = of_int (sint (of_nat d :: u32))" by (metis of_int_of_nat_eq)
  also have "\<dots> = of_nat d" by simp
  finally show False using of_nat_eq_32 [of e d] d e by simp
qed

subsection \<open>Splitting\<close>

definition split_fit :: "nat \<Rightarrow> nat \<Rightarrow> block list" where
  "split_fit n m = (if n + 17 \<le> m \<and> m - n < 0x80000000 then [(n, False), (m - n - 16, True)] else [(m, False)])"

lemma span_split_fit: "span (split_fit n m) = 16 + m"
  by (simp add: split_fit_def)

lemma hst_to_nat:
  "(of_nat a :: u32) + SIZEOF_MEM_INFOS = of_nat (a + 16)" "(of_nat a :: u32) + of_nat b = of_nat (a + b)"
  by (simp_all add: SIZEOF_MEM_INFOS_def)

lemma split_difference:
  assumes "n \<le> m" and "m < 4294967296"
  shows "0 < sint ((of_nat m :: u32) - of_nat n) \<and> (of_int (sint ((of_nat m :: u32) - of_nat n)) :: u32) \<ge> SIZEOF_MEM_INFOS + 1
      \<longleftrightarrow> n + 17 \<le> m \<and> m - n < 0x80000000"
    and "(of_int (sint ((of_nat m :: u32) - of_nat n)) :: u32) = of_nat (m - n)"
proof -
  have d: "(of_nat m :: u32) - of_nat n = of_nat (m - n)" using assms(1) by (simp add: of_nat_diff)
  show eq: "(of_int (sint ((of_nat m :: u32) - of_nat n)) :: u32) = of_nat (m - n)"
    unfolding d by simp
  have test: "0 < sint (of_nat j :: u32) \<and> (of_nat 17 :: u32) \<le> of_nat j \<longleftrightarrow> 17 \<le> j \<and> j < 0x80000000" if "j < 4294967296" for j
    using sint_nat [of j] sint_big [of j] of_nat_le_32 [of 17 j] that by (cases "j < 0x80000000") auto
  have "SIZEOF_MEM_INFOS + 1 = (of_nat 17 :: u32)" by (simp add: SIZEOF_MEM_INFOS_def)
  then show "0 < sint ((of_nat m :: u32) - of_nat n) \<and> (of_int (sint ((of_nat m :: u32) - of_nat n)) :: u32) \<ge> SIZEOF_MEM_INFOS + 1
      \<longleftrightarrow> n + 17 \<le> m \<and> m - n < 0x80000000"
    using test [of "m - n"] assms unfolding eq unfolding d by (metis add.commute le_diff_conv2 less_imp_diff_less)
qed

lemma prepare_split_eq:
  assumes h: "hdr s x m True" and nm: "n \<le> m" and b: "x + 16 + m \<le> 0xBFFFFFF0"
  shows "prepare_split_value (of_nat x) (of_nat n) s =
    (if n + 17 \<le> m \<and> m - n < 0x80000000
     then hst (x + 12) (of_nat (x + 16 + n)) (hst x (of_nat n)
       (hst (x + 16 + n + 12) (of_nat (x + 16 + m)) (hst (x + 16 + n) (of_nat (m - n - 16))
         (hst (x + 16 + n + 4) TRUE (hst (x + 16 + n + 8) (of_nat (x + 16 + n + 16)) (hst (x + 4) FALSE s))))))
     else hst (x + 4) FALSE s)"
proof -
  let ?s = "hst (x + 4) FALSE s"
  have m: "m < 4294967296" using b by simp
  have r: "hw ?s x = of_nat m" "hw ?s (x + 8) = of_nat (x + 16)"
    using h b by (simp_all add: hdr_def hw_hst_other)
  have next': "of_nat (x + 16 + n) + SIZEOF_MEM_INFOS + of_nat (m - n - 16) = (of_nat (x + 16 + m) :: u32)" if "n + 17 \<le> m"
  proof -
    have "x + 16 + m = (x + 16 + n) + 16 + (m - n - 16)" using that by simp
    then show ?thesis by (simp add: SIZEOF_MEM_INFOS_def)
  qed
  have sz: "of_nat (m - n) - SIZEOF_MEM_INFOS = (of_nat (m - n - 16) :: u32)" if "n + 17 \<le> m"
    using that by (simp add: SIZEOF_MEM_INFOS_def of_nat_diff)
  note d = split_difference [OF nm m]
  show ?thesis
  proof (cases "n + 17 \<le> m \<and> m - n < 0x80000000")
    case True
    let ?y = "x + 16 + n"
    have y: "of_nat (x + 16) + of_nat n = (of_nat ?y :: u32)" by simp
    show ?thesis
      unfolding prepare_split_value_def Let_def accessors r d(2)
      using d(1) True next' sz unfolding y accessors hst_to_nat(1) d(2)
      by (simp only: if_True simp_thms hw_hst_same)
  next
    case False
    with d(1) show ?thesis
      unfolding prepare_split_value_def Let_def accessors r d(2) by (simp only: if_False)
  qed
qed

lemma prepare_split:
  assumes h: "hdr s x m True" and nm: "n \<le> m" and b: "x + 16 + m \<le> 0xBFFFFFF0" and s': "s' = prepare_split_value (of_nat x) (of_nat n) s"
  shows "blocks_at s' x (split_fit n m)"
    and "y < x \<or> x + 16 \<le> y \<and> y < x + 16 + n \<or> x + 16 + m \<le> y \<Longrightarrow> y < 0xC0000000 \<Longrightarrow> low s' y = low s y"
    and "brk_ok s' = brk_ok s" and "first s' = first s" and "kds s' = kds s"
proof -
  note eq = s' [unfolded prepare_split_eq [OF h nm b]]
  note hd = h [unfolded hdr_def]
  show "blocks_at s' x (split_fit n m)"
  proof (cases "n + 17 \<le> m \<and> m - n < 0x80000000")
    case True
    then have "x + 16 + n + 16 + (m - n - 16) = x + 16 + m" by simp
    then show ?thesis
      using True hd b unfolding eq split_fit_def by (simp add: hdr_def hw_hst_other)
  next
    case False
    then show ?thesis using hd b unfolding eq split_fit_def by (auto simp: hdr_def hw_hst_other)
  qed
  show "low s' y = low s y" if "y < x \<or> x + 16 \<le> y \<and> y < x + 16 + n \<or> x + 16 + m \<le> y" "y < 0xC0000000"
    unfolding eq using that b by (auto simp: low_hst)
  show "brk_ok s' = brk_ok s" "first s' = first s" "kds s' = kds s"
    unfolding eq using b by auto
qed


subsection \<open>Preserving the invariant\<close>

lemma compact_append:
  "compact (xs @ ys) \<longleftrightarrow> compact xs \<and> compact ys \<and> (xs = [] \<or> ys = [] \<or> \<not> (snd (last xs) \<and> snd (hd ys)))"
  by (auto simp: compact_def successively_append_iff)

lemma compact_Nil [simp]: "compact []"
  by (simp add: compact_def)

lemma compact_Cons: "compact (x # ys) \<longleftrightarrow> compact ys \<and> (ys = [] \<or> \<not> (snd x \<and> snd (hd ys)))"
  by (cases ys) (auto simp: compact_def)

lemma compact_split: "compact (pre @ (m, True) # post) \<Longrightarrow> compact (pre @ split_fit n m @ post)"
  by (auto simp: compact_append compact_Cons split_fit_def)

lemma heap_okD:
  assumes "heap_ok k bs s"
  shows "brk_ok s" and "first s = 0x8000000" and "kds s = 8 + 4096 * k" and "hw s 0x8000000 = of_nat k"
    and "hw s 0x8000004 = of_nat (HEAP_BASE + span bs)" and "span bs \<le> 4096 * k" and "blocks_at s HEAP_BASE bs"
    and "\<And>n f. (n, f) \<in> set bs \<Longrightarrow> 0 < n" and "compact bs"
  using assms by (auto simp: heap_ok_def)

lemma kept_first: "kmem.more s' = kmem.more s \<Longrightarrow> first s' = first s"
  by (cases s; cases s') simp

lemma heap_ok_keeps:
  assumes "heap_ok k bs s" and "mm_keeps s s'" and "brk_ok s'" and "kds s' = kds s"
  shows "heap_ok k bs s'"
proof -
  have low: "low s' y = low s y" if "y < 0xC0000000" for y using assms(2) that by (simp add: mm_keeps_def)
  note d = heap_okD [OF assms(1)] and b = heap_ok_bound [OF assms(1)]
  have "hw s' y = hw s y" if "y + 4 \<le> 0xC0000000" for y by (rule hw_cong) (use low that in auto)
  moreover have "blocks_at s' HEAP_BASE bs = blocks_at s HEAP_BASE bs" by (rule blocks_at_cong) (use low b in auto)
  moreover have "first s' = first s" using assms(2) kept_first by (auto simp: mm_keeps_def)
  ultimately show ?thesis using d assms(3,4) by (auto simp: heap_ok_def)
qed

definition same_payload :: "block list \<Rightarrow> 'a heap_scheme \<Rightarrow> 'a heap_scheme \<Rightarrow> bool" where
  "same_payload bs s s' \<longleftrightarrow> (\<forall>(a, n) \<in> used HEAP_BASE bs. \<forall>y. a \<le> y \<and> y < a + n \<longrightarrow> low s' y = low s y)"

lemma get_first_value_ready: "heap_ok k bs s \<Longrightarrow> get_first_value s = Some (0x8000000, s)"
  by (simp add: get_first_value_def heap_ok_def)

lemma mem_search_place_ready:
  assumes "heap_ok k bs s" and "n < 4294967296"
  shows "mem_search_place (of_nat n) s = (case best_fit n HEAP_BASE bs None of
      None \<Rightarrow> Some (NULL, s)
    | Some (x, m) \<Rightarrow> let s' = prepare_split_value (of_nat x) (of_nat n) s in Some (mi_begin (of_nat x) s', s'))"
proof -
  note d = heap_okD [OF assms(1)] and b = heap_ok_bound [OF assms(1)]
  have run: "search_loop 0x8000000 (of_nat n) (of_nat HEAP_BASE) NULL s = Some (addr_of (best_fit n HEAP_BASE bs None))"
    using search_loop_best [OF d(7,5) _ _ assms(2), of None] b(2) by (simp add: addr_of_def acc_ok_def HEAP_BASE_def)
  have "addr_of (Some (x, m)) \<noteq> NULL" if "best_fit n HEAP_BASE bs None = Some (x, m)" for x m
  proof -
    from best_fit_spec [where n = n and a = HEAP_BASE and bs = bs and acc = None] that obtain pre post where
      "bs = pre @ (m, True) # post" "x = HEAP_BASE + span pre" by auto
    then show ?thesis using b(2) of_nat_eq_0_32 [of x] by (auto simp: addr_of_def HEAP_BASE_def)
  qed
  then show ?thesis
    unfolding mem_search_place_def get_first_value_ready [OF assms(1)]
    by (auto simp: first_plus run Let_def addr_of_def split: option.splits)
qed

lemma kmalloc_reuse:
  assumes ok: "heap_ok k bs s" and n: "0 < n" "n < 4294967296" and bf: "best_fit n HEAP_BASE bs None = Some (x, m)"
  obtains pre post s' where "kmalloc (of_nat n) s = Some (of_nat (x + 16), s')" "bs = pre @ (m, True) # post"
    "x = HEAP_BASE + span pre" "n \<le> m" "heap_ok k (pre @ split_fit n m @ post) s'" "same_payload bs s s'"
proof -
  note d = heap_okD [OF ok] and b = heap_ok_bound [OF ok]
  from best_fit_spec [where n = n and a = HEAP_BASE and bs = bs and acc = None] bf obtain pre post where
    bs: "bs = pre @ (m, True) # post" and x: "x = HEAP_BASE + span pre" and nm: "n \<le> m" by auto
  have h: "hdr s x m True" using d(7) unfolding bs x by simp
  have xm: "x + 16 + m + span post = HEAP_BASE + span bs" unfolding bs x by simp
  then have bx: "x + 16 + m \<le> 0xBFFFFFF0" using b(2) by simp
  let ?s = "prepare_split_value (of_nat x) (of_nat n) s"
  note sp = prepare_split [OF h nm bx refl]
  have n0: "(of_nat n :: u32) \<noteq> 0" using n by (simp add: of_nat_eq_0_32)
  have beg: "mi_begin (of_nat x) ?s = of_nat (x + 16)" using sp(1) hdr_accessors(3)
    by (auto simp: split_fit_def split: if_splits)
  have nz: "(of_nat (x + 16) :: u32) \<noteq> NULL" using bx of_nat_eq_0_32 [of "x + 16"] by simp
  have run: "kmalloc (of_nat n) s = Some (of_nat (x + 16), ?s)"
    unfolding kmalloc_def mem_add_value_def get_first_value_ready [OF ok]
    using n0 nz by (simp add: mem_search_place_ready [OF ok n(2)] bf Let_def beg del: of_nat_add)
  have x8: "0x8000008 \<le> x" by (simp add: x HEAP_BASE_def)
  have hwp: "hw ?s a = hw s a" if "a + 4 \<le> 0x8000008" for a
    by (rule hw_cong, rule sp(2)) (use that x8 in auto)
  have pre: "blocks_at ?s HEAP_BASE pre"
    using d(7) blocks_at_cong [of HEAP_BASE pre ?s s] sp(2) bx unfolding bs x by auto
  have post: "blocks_at ?s (x + 16 + m) post"
  proof -
    have "blocks_at ?s (x + 16 + m) post = blocks_at s (x + 16 + m) post"
      by (rule blocks_at_cong) (rule sp(2), use xm b(2) in auto)
    then show ?thesis using d(7) unfolding bs x by (simp add: add_ac)
  qed
  have "heap_ok k (pre @ split_fit n m @ post) ?s"
    unfolding heap_ok_def
  proof (intro conjI)
    show "blocks_at ?s HEAP_BASE (pre @ split_fit n m @ post)"
      using pre post sp(1) by (simp add: x [symmetric] span_split_fit add_ac)
    show "\<forall>(n, f) \<in> set (pre @ split_fit n m @ post). 0 < n"
      using d(8) n(1) unfolding bs by (auto simp: split_fit_def)
    show "compact (pre @ split_fit n m @ post)" using d(9) unfolding bs by (rule compact_split)
  qed (use d sp(3-5) in \<open>auto simp: hwp bs span_split_fit\<close>)
  moreover have "same_payload bs s ?s"
    unfolding same_payload_def
  proof (clarify)
    fix a l y assume "(a, l) \<in> used HEAP_BASE bs" and y: "a \<le> y" "y < a + l"
    then have "(a, l) \<in> used HEAP_BASE pre \<or> (a, l) \<in> used (x + 16 + m) post" unfolding bs x by (auto simp: add_ac)
    then have "y < x \<or> x + 16 + m \<le> y" using used_range [of a l] y unfolding x by fastforce
    moreover have "y < 0xC0000000" using used_range [OF \<open>(a, l) \<in> used HEAP_BASE bs\<close>] y b(2) by simp
    ultimately show "low ?s y = low s y" by (intro sp(2)) auto
  qed
  ultimately show ?thesis using that run bs x nm by blast
qed


subsection \<open>Growing the heap\<close>

lemma append_block:
  assumes ok: "heap_ok k bs s" and fit: "span bs + 16 + n \<le> 4096 * k" and n: "0 < n"
    and a: "a = HEAP_BASE + span bs"
    and s': "s' = hst 0x8000004 (of_nat (a + 16 + n)) (hst (a + 12) (of_nat (a + 16 + n)) (hst (a + 8) (of_nat (a + 16))
      (hst (a + 4) FALSE (hst a (of_nat n) s))))"
  shows "heap_ok k (bs @ [(n, False)]) s'" and "same_payload bs s s'"
proof -
  note d = heap_okD [OF ok] and b = heap_ok_bound [OF ok]
  have ab: "0x8000008 \<le> a" "a + 16 + n + 4088 \<le> 0xC0000000" using fit b(1) a by (auto simp: HEAP_BASE_def)
  have low: "low s' y = low s y" if "0x8000008 \<le> y" "y < a" for y
    unfolding s' using that ab by (simp add: low_hst)
  have k: "hw s' 0x8000000 = hw s 0x8000000" unfolding s' using ab by (simp add: hw_hst_other)
  have "blocks_at s' HEAP_BASE bs"
    using d(7) blocks_at_cong [of HEAP_BASE bs s' s] low a by (auto simp: HEAP_BASE_def)
  moreover have "hdr s' a n False" unfolding s' hdr_def using ab by (simp add: hw_hst_other)
  moreover have "brk_ok s'" "first s' = first s" "kds s' = kds s" unfolding s' using d(1) ab by simp_all
  moreover have "hw s' 0x8000004 = of_nat (a + 16 + n)" unfolding s' by simp
  ultimately show "heap_ok k (bs @ [(n, False)]) s'"
    unfolding heap_ok_def using d k fit n
    by (auto simp: a compact_append compact_Cons add_ac)
  show "same_payload bs s s'"
    unfolding same_payload_def
  proof clarify
    fix x l y assume "(x, l) \<in> used HEAP_BASE bs" "x \<le> y" "y < x + l"
    with used_range [of x l HEAP_BASE bs] show "low s' y = low s y" by (intro low) (auto simp: a HEAP_BASE_def)
  qed
qed

lemma error_message_fields:
  obtains r t d where "kprintf ERROR_SBRK_MSG [] s = Some (r, s\<lparr>trace := t, disp_bytes := d\<rparr>)"
  using kprintf_fields [of ERROR_SBRK_MSG "[]" s] by (auto simp: ERROR_SBRK_MSG_def)

lemma heap_ok_out: "heap_ok k bs s \<Longrightarrow> heap_ok k bs (s\<lparr>trace := t, disp_bytes := d\<rparr>)"
  by (rule heap_ok_keeps) (auto simp: brk_ok_out kds_def heap_ok_def)

lemma pagesize_add_update_cases:
  assumes ok: "heap_ok k bs s" and n: "n < 0x3FFF0000"
  obtains (Grown) k' s' where "pagesize_add_update 0x8000000 (of_nat n) s = Some (SUCCES, s')" "heap_ok k' bs s'"
      "span bs + 16 + n \<le> 4096 * k'" "same_payload bs s s'" "span bs + 16 + n \<le> 4096 * k \<longrightarrow> k' = k"
  | (Full) s' where "pagesize_add_update 0x8000000 (of_nat n) s = Some (FAILED, s')" "heap_ok k bs s'" "same_payload bs s s'"
      "4096 * k < span bs + 16 + n"
proof -
  note d = heap_okD [OF ok] and b = heap_ok_bound [OF ok]
  let ?e = "HEAP_BASE + span bs + 16 + n" and ?l = "HEAP_BASE + 4096 * k"
  have new: "pi_max_pos 0x8000000 s + SIZEOF_MEM_INFOS + of_nat n = of_nat ?e"
    by (simp add: page_infos_accessors d(5) SIZEOF_MEM_INFOS_def)
  have seg: "0x8000000 + SIZEOF_PAGE_INFOS + pi_nb_pages 0x8000000 s * getpagesize = (of_nat ?l :: u32)"
    unfolding first_plus by (simp add: page_infos_accessors d(4) getpagesize_def FRAME_SIZE_def)
  have eb: "?e < 4294967296" "?l < 4294967296" using b n by auto
  have gt: "(of_nat ?l :: u32) < of_nat ?e \<longleftrightarrow> ?l < ?e" using eb by (intro of_nat_less_32)
  have keep: "same_payload bs s s'" if "\<And>y. y < 0xC0000000 \<Longrightarrow> 0x8000008 \<le> y \<Longrightarrow> low s' y = low s y" for s' :: "'a heap_scheme"
    unfolding same_payload_def
  proof clarify
    fix x l y assume "(x, l) \<in> used HEAP_BASE bs" "x \<le> y" "y < x + l"
    with used_range [of x l HEAP_BASE bs] b(2) show "low s' y = low s y" by (intro that) (auto simp: HEAP_BASE_def)
  qed
  show ?thesis
  proof (cases "?l < ?e")
    case False
    then have "pagesize_add_update 0x8000000 (of_nat n) s = Some (SUCCES, s)"
      unfolding pagesize_add_update_def Let_def new seg using gt by simp
    then show ?thesis using Grown [of s k] ok False keep by auto
  next
    case True
    define nb where "nb = (?e - ?l) div 4096 + 1"
    have de: "(of_nat ?e :: u32) - of_nat ?l = of_nat (?e - ?l)" using True of_nat_diff [of ?l ?e, where 'a = u32] by simp
    have small: "?e - ?l < 0x3FFF0010" using d(6) n by simp
    have nb: "nb < 0x80000" "0 < nb" "?e - ?l \<le> 4096 * nb" unfolding nb_def using small by auto
    have dv: "sint ((of_nat ?e - of_nat ?l :: u32) div getpagesize) + 1 = int nb"
    proof -
      have "(of_nat ?e - of_nat ?l :: u32) div getpagesize = of_nat ((?e - ?l) div 4096)"
        unfolding de consts_nat(3) by (rule of_nat_div_32) (use small in auto)
      moreover have "(?e - ?l) div 4096 < 0x80000000" using small by (simp add: le_less_trans [OF div_le_dividend])
      ultimately show ?thesis using sint_nat by (simp add: nb_def)
    qed
    have sz: "sint (of_int (int nb) * getpagesize) = int (4096 * nb)"
      using sint_nat [of "4096 * nb"] nb(1) by (simp add: getpagesize_def FRAME_SIZE_def mult.commute)
    have run: "pagesize_add_update 0x8000000 (of_nat n) s = do {
           (r, s) \<leftarrow> sbrk (int (4096 * nb)) s;
           if r = MINUS_ONE then do { (_, s) \<leftarrow> kprintf ERROR_SBRK_MSG [] s; Some (FAILED, s) }
           else Some (SUCCES, pi_nb_pages_set 0x8000000 (pi_nb_pages 0x8000000 s + of_int (int nb)) s) }"
      unfolding pagesize_add_update_def Let_def new seg using gt True nb(2)
      by (simp only: if_True dv sz of_nat_0_less_iff)
    obtain r u where u: "sbrk (int (4096 * nb)) s = Some (r, u)" "brk_ok u" "mm_keeps s u"
      "r = MINUS_ONE \<and> kds u = kds s \<or> r \<noteq> MINUS_ONE \<and> kds u = 8 + 4096 * (k + nb) \<and> KDS_BASE + 8 + 4096 * (k + nb) \<le> KDS_TOP"
      by (rule kbrk.grow_pages [OF d(1,3) nb(2,1)]) blast
    have low: "low u y = low s y" if "y < 0xC0000000" for y using u(3) that by (simp add: mm_keeps_def)
    have more: "4096 * k < span bs + 16 + n" using True by simp
    show ?thesis
    proof (cases "r = MINUS_ONE")
      case True
      with u(4) have "kds u = kds s" by auto
      from heap_ok_keeps [OF ok u(3,2) this] have oku: "heap_ok k bs u" .
      obtain r' t dd where "kprintf ERROR_SBRK_MSG [] u = Some (r', u\<lparr>trace := t, disp_bytes := dd\<rparr>)"
        by (rule error_message_fields)
      then have "pagesize_add_update 0x8000000 (of_nat n) s = Some (FAILED, u\<lparr>trace := t, disp_bytes := dd\<rparr>)"
        unfolding run u(1) using True by simp
      then show ?thesis
        by (rule Full) (use heap_ok_out [OF oku] keep low more in auto)
    next
      case False
      with u(4) have ku: "kds u = 8 + 4096 * (k + nb)" by auto
      have hwu: "hw u y = hw s y" if "y + 4 \<le> 0xC0000000" for y by (rule hw_cong) (use low that in auto)
      let ?v = "hst 0x8000000 (of_nat (k + nb)) u"
      have res: "pagesize_add_update 0x8000000 (of_nat n) s = Some (SUCCES, ?v)"
        unfolding run u(1) using False hwu [of "0x8000000"] d(4) by (simp add: page_infos_accessors)
      have lowv: "low ?v y = low s y" if "y < 0xC0000000" "0x8000008 \<le> y" for y using that low by (simp add: low_hst)
      have "blocks_at ?v HEAP_BASE bs"
        using d(7) blocks_at_cong [of HEAP_BASE bs ?v s] lowv b(2) by (auto simp: HEAP_BASE_def)
      moreover have "hw ?v 0x8000004 = hw s 0x8000004" using hwu by (simp add: hw_hst_other)
      moreover have "first ?v = first s" using u(3) kept_first by (auto simp: mm_keeps_def)
      moreover have "span bs + 16 + n \<le> 4096 * (k + nb)" using nb(3) True by simp
      ultimately have "heap_ok (k + nb) bs ?v" unfolding heap_ok_def using d u(2) ku by auto
      then show ?thesis
        by (rule Grown [OF res]) (use \<open>span bs + 16 + n \<le> 4096 * (k + nb)\<close> keep lowv more in auto)
    qed
  qed
qed

subsection \<open>kmalloc\<close>

text \<open>
  What an allocation of \<open>n\<close> bytes does to the list of blocks. It takes a smallest free block
  that is large enough and splits off the rest if there is room for a header and a byte;
  without such a block it appends a new one, or fails and changes nothing. It can fail only
  if the new block does not fit into the \<open>room\<close> bytes that the heap already has.
\<close>

inductive kmalloc_spec :: "nat \<Rightarrow> nat \<Rightarrow> block list \<Rightarrow> u32 \<Rightarrow> block list \<Rightarrow> bool" for room n bs where
  reuse: "bs = pre @ (m, True) # post \<Longrightarrow> n \<le> m \<Longrightarrow> (\<forall>(m', f) \<in> set bs. f \<and> n \<le> m' \<longrightarrow> m \<le> m') \<Longrightarrow>
    kmalloc_spec room n bs (of_nat (HEAP_BASE + span pre + 16)) (pre @ split_fit n m @ post)"
| extend: "(\<forall>(m, f) \<in> set bs. f \<longrightarrow> m < n) \<Longrightarrow>
    kmalloc_spec room n bs (of_nat (HEAP_BASE + span bs + 16)) (bs @ [(n, False)])"
| exhausted: "(\<forall>(m, f) \<in> set bs. f \<longrightarrow> m < n) \<Longrightarrow> room < span bs + 16 + n \<Longrightarrow> kmalloc_spec room n bs NULL bs"

lemma kmalloc_spec_mono: "kmalloc_spec room n bs r bs' \<Longrightarrow> room' \<le> room \<Longrightarrow> kmalloc_spec room' n bs r bs'"
  by (induction rule: kmalloc_spec.induct) (blast intro: kmalloc_spec.intros less_le_trans le_less_trans)+

lemma same_payload_trans [trans]: "same_payload bs s t \<Longrightarrow> same_payload bs t u \<Longrightarrow> same_payload bs s u"
  unfolding same_payload_def by fastforce

lemma kmalloc_ready:
  assumes ok: "heap_ok k bs s" and n: "0 < n" "n < 0x3FFF0000"
  shows "\<exists>r s' bs' k'. kmalloc (of_nat n) s = Some (r, s') \<and> heap_ok k' bs' s' \<and>
    kmalloc_spec (4096 * k) n bs r bs' \<and> same_payload bs s s' \<and> (span bs' \<le> 4096 * k \<longrightarrow> k' = k)"
proof (cases "best_fit n HEAP_BASE bs None")
  case (Some p)
  obtain x m where p: "p = (x, m)" by (cases p)
  have lt: "n < 4294967296" using n(2) by simp
  have best: "\<forall>(m', f) \<in> set bs. f \<and> n \<le> m' \<longrightarrow> m \<le> m'"
    using best_fit_spec [where n = n and a = HEAP_BASE and bs = bs and acc = None] Some p by simp
  show ?thesis
    by (rule kmalloc_reuse [OF ok n(1) lt Some [unfolded p]]) (use best kmalloc_spec.reuse in blast)
next
  case None
  then have none: "\<forall>(m, f) \<in> set bs. f \<longrightarrow> m < n"
    using best_fit_spec [where n = n and a = HEAP_BASE and bs = bs and acc = None] by simp
  have n0: "(of_nat n :: u32) \<noteq> 0" and lt: "n < 4294967296" using n by (simp_all add: of_nat_eq_0_32)
  have start: "kmalloc (of_nat n) s = do {
         (rv, s) \<leftarrow> pagesize_add_update 0x8000000 (of_nat n) s;
         if rv = FAILED then Some (NULL, s)
         else
           let mem_infos = pi_max_pos 0x8000000 s;
               s = mi_size_set mem_infos (of_nat n) s;
               s = mi_is_free_set mem_infos FALSE s;
               s = mi_begin_set mem_infos (mem_infos + SIZEOF_MEM_INFOS) s;
               s = mi_next_set mem_infos (mi_begin mem_infos s + of_nat n) s;
               s = pi_max_pos_set 0x8000000 (mi_next mem_infos s) s
           in Some (mi_begin mem_infos s, s) }"
    unfolding kmalloc_def mem_add_value_def get_first_value_ready [OF ok]
    using n0 by (simp add: mem_search_place_ready [OF ok lt] None)
  show ?thesis
  proof (cases rule: pagesize_add_update_cases [OF ok n(2)])
    case (1 k' u)
    note d = heap_okD [OF 1(2)] and b = heap_ok_bound [OF 1(2)]
    let ?a = "HEAP_BASE + span bs"
    let ?s = "hst 0x8000004 (of_nat (?a + 16 + n)) (hst (?a + 12) (of_nat (?a + 16 + n)) (hst (?a + 8) (of_nat (?a + 16))
      (hst (?a + 4) FALSE (hst ?a (of_nat n) u))))"
    note ap = append_block [OF 1(2,3) n(1) refl refl]
    have bounds: "?a + 16 \<le> 0xC0000000" "0x8000008 \<le> ?a" using b by (auto simp: HEAP_BASE_def)
    have "hw ?s (?a + 8) = of_nat (?a + 16)" using bounds by (simp add: hw_hst_other del: of_nat_add)
    then have "kmalloc (of_nat n) s = Some (of_nat (?a + 16), ?s)"
      unfolding start 1(1) page_infos_accessors
      by (simp add: Let_def page_infos_accessors d(5) accessors hst_to_nat hw_hst_other del: of_nat_add)
    moreover have "span (bs @ [(n, False)]) \<le> 4096 * k \<longrightarrow> k' = k" using 1(5) by simp
    ultimately show ?thesis using ap 1(4) kmalloc_spec.extend [OF none] same_payload_trans by blast
  next
    case (2 u)
    then have "kmalloc (of_nat n) s = Some (NULL, u)" unfolding start by simp
    then show ?thesis using 2 kmalloc_spec.exhausted [OF none 2(4)] by blast
  qed
qed

lemma get_first_value_fresh:
  assumes "brk_ok s" and "first s = 0" and "kds s = 0"
  obtains (Ready) s' where "get_first_value s = Some (0x8000000, s')" "heap_ok 1 [] s'"
  | (Full) s' where "get_first_value s = Some (NULL, s')" "heap_rep s' []"
proof -
  have sz: "sint (SIZEOF_PAGE_INFOS + getpagesize) = int 4104"
    by (simp add: SIZEOF_PAGE_INFOS_def getpagesize_def FRAME_SIZE_def)
  obtain r u where u: "sbrk (int 4104) s = Some (r, u)" "brk_ok u" "mm_keeps s u"
    "r = MINUS_ONE \<and> kds u = kds s \<or> r = of_nat (KDS_BASE + 4096 * pages_of (kds s)) \<and> kds u = kds s + 4104"
    using kbrk.grow [OF assms(1), of 4104] by auto
  have fu: "first u = 0" using u(3) kept_first [of u s] assms(2) by (simp add: mm_keeps_def)
  show ?thesis
  proof (cases "r = MINUS_ONE")
    case True
    have "kds u = 0"
      using u(4) kbrk.end_not_minus_one [OF assms(1)] True assms(3) by auto
    then have "heap_rep u []" using u(2) fu by (simp add: heap_rep_def)
    then show ?thesis using Full [of u] True u(1) assms(2) by (simp add: get_first_value_def sz)
  next
    case False
    with u(4) assms(3) have r: "r = 0x8000000" and ku: "kds u = 4104" by (auto simp: KDS_BASE_def pages_of_def)
    let ?v = "u\<lparr>first := 0x8000000\<rparr>"
    let ?s = "hst 0x8000004 (of_nat HEAP_BASE) (hst 0x8000000 1 ?v)"
    have "get_first_value s = Some (0x8000000, ?s)"
      using assms(2) u(1) r False by (simp add: get_first_value_def sz Let_def page_infos_accessors first_plus)
    moreover have "brk_ok ?v" "kds ?v = 4104"
    proof -
      have "paging_ok ?v = paging_ok u" by (simp add: paging_ok_def pd_placed_def pdn_def pde_w_def)
      then show "brk_ok ?v" "kds ?v = 4104"
        using u(2) ku by (simp_all add: brk_ok_def frames_ok_def nframes_def kds_def segment_present_def pte_w_def)
    qed
    ultimately show ?thesis
      using Ready [of ?s] by (simp add: heap_ok_def hw_hst_other)
  qed
qed

lemma kmalloc_step:
  assumes "heap_rep s bs" and "0 < n" and "n < 0x3FFF0000"
  shows "\<exists>r s' bs'. kmalloc (of_nat n) s = Some (r, s') \<and> heap_rep s' bs' \<and>
    kmalloc_spec (kds s - 8) n bs r bs' \<and> same_payload bs s s'"
proof (cases "\<exists>k. heap_ok k bs s")
  case True
  then obtain k where ok: "heap_ok k bs s" by blast
  then have "kds s - 8 = 4096 * k" by (simp add: heap_ok_def)
  then show ?thesis using kmalloc_ready [OF ok assms(2,3)] by (metis heap_rep_def)
next
  case False
  then have fresh: "brk_ok s" "first s = 0" "kds s = 0" and bs: "bs = []" using assms(1) by (auto simp: heap_rep_def)
  have n0: "(of_nat n :: u32) \<noteq> 0" using assms by (simp add: of_nat_eq_0_32)
  show ?thesis
  proof (cases rule: get_first_value_fresh [OF fresh])
    case (1 u)
    have "kmalloc (of_nat n) s = kmalloc (of_nat n) u"
      using n0 by (simp add: kmalloc_def mem_add_value_def 1(1) get_first_value_ready [OF 1(2)])
    moreover have "same_payload [] s s'" for s' by (simp add: same_payload_def)
    moreover have "kmalloc_spec (kds s - 8) n [] r bs'" if "kmalloc_spec (4096 * 1) n [] r bs'" for r bs'
      by (rule kmalloc_spec_mono [OF that]) (simp add: fresh(3))
    ultimately show ?thesis using kmalloc_ready [OF 1(2) assms(2,3)] unfolding bs by (metis heap_rep_def)
  next
    case (2 u)
    then have "kmalloc (of_nat n) s = Some (NULL, u)" using n0 by (simp add: kmalloc_def mem_add_value_def)
    moreover have "kmalloc_spec (kds s - 8) n [] NULL []" by (rule kmalloc_spec.exhausted) (simp_all add: fresh(3))
    ultimately show ?thesis using 2 unfolding bs by (auto simp: same_payload_def)
  qed
qed

subsection \<open>free\<close>

text \<open>Merging a block with a free neighbour on either side.\<close>

fun merge_after :: "nat \<Rightarrow> block list \<Rightarrow> nat \<times> block list" where
  "merge_after n ((m, True) # post) = (n + 16 + m, post)"
| "merge_after n post = (n, post)"

definition merge_before :: "block list \<Rightarrow> nat \<Rightarrow> block list \<times> nat" where
  "merge_before pre n =
     (if pre \<noteq> [] \<and> snd (last pre) then (butlast pre, fst (last pre) + 16 + n) else (pre, n))"

lemma merge_after_span: "merge_after n post = (n1, post1) \<Longrightarrow> n1 + span post1 = n + span post"
  by (cases "(n, post)" rule: merge_after.cases) auto

lemma span_last: "pre \<noteq> [] \<Longrightarrow> span pre = span (butlast pre) + 16 + fst (last pre)"
proof -
  assume "pre \<noteq> []"
  then have "span pre = span (butlast pre @ [last pre])" by simp
  then show ?thesis by (cases "last pre") simp
qed

lemma merge_before_span: "merge_before pre n = (pre1, n2) \<Longrightarrow> span pre1 + n2 = span pre + n"
  using span_last [of pre] by (auto simp: merge_before_def split: if_splits)

lemma merge_compact:
  assumes "compact (pre @ (n, f) # post)" and "merge_after n post = (n1, post1)" and "merge_before pre n1 = (pre1, n2)"
  shows "compact (pre1 @ (n2, True) # post1)"
proof -
  have 1: "compact post1" "post1 = [] \<or> \<not> snd (hd post1)"
    using assms(1,2) by (cases "(n, post)" rule: merge_after.cases; auto simp: compact_append compact_Cons)+
  have "compact pre" using assms(1) by (simp add: compact_append)
  moreover have "compact (butlast pre)" "butlast pre = [] \<or> \<not> snd (last (butlast pre))" if "pre \<noteq> []" "snd (last pre)"
  proof -
    have "compact (butlast pre @ [last pre])" using \<open>compact pre\<close> that(1) by simp
    then show "compact (butlast pre)" "butlast pre = [] \<or> \<not> snd (last (butlast pre))"
      using that(2) unfolding compact_append by auto
  qed
  ultimately have 2: "compact pre1" "pre1 = [] \<or> \<not> snd (last pre1)"
    using assms(3) by (auto simp: merge_before_def split: if_splits)
  show ?thesis using 1 2 by (simp add: compact_append compact_Cons)
qed

lemma rm_loop_skip:
  assumes "blocks_at s a (pre @ rest)" and "hw s 0x8000004 = of_nat (a + span (pre @ rest))" and "0 < a"
    and "a + span (pre @ rest) < 4294967296" and "\<And>xs ys. pre = xs @ ys \<Longrightarrow> ys \<noteq> [] \<Longrightarrow> ptr \<noteq> of_nat (a + span xs + 16)"
  shows "mem_rm_loop 0x8000000 ptr (of_nat a) l s =
    mem_rm_loop 0x8000000 ptr (of_nat (a + span pre)) (if pre = [] then l else of_nat (a + span (butlast pre))) s"
  using assms
proof (induction pre arbitrary: a l)
  case (Cons b pre)
  obtain n f where b: "b = (n, f)" by (cases b)
  have h: "hdr s a n f" using Cons.prems(1) b by simp
  note acc = hdr_accessors [OF h]
  have lt: "(of_nat a :: u32) < of_nat (a + span ((b # pre) @ rest))" "(of_nat a :: u32) \<noteq> 0"
    using Cons.prems(3,4) b by (simp_all add: of_nat_less_32 of_nat_eq_0_32 del: of_nat_add)
  have ne: "of_nat (a + 16) \<noteq> ptr" using Cons.prems(5) [of "[]" "b # pre"] by auto
  have "mem_rm_loop 0x8000000 ptr (of_nat a) l s = mem_rm_loop 0x8000000 ptr (of_nat (a + 16 + n)) (of_nat a) s"
    using lt ne Cons.prems(2) by (subst mem_rm_loop.simps)
      (simp only: page_infos_accessors acc(3,4) if_True if_False simp_thms)
  also have "\<dots> = mem_rm_loop 0x8000000 ptr (of_nat (a + 16 + n + span pre))
      (if pre = [] then of_nat a else of_nat (a + 16 + n + span (butlast pre))) s"
  proof (rule Cons.IH)
    fix xs ys assume "pre = xs @ ys" "ys \<noteq> []"
    then show "ptr \<noteq> of_nat (a + 16 + n + span xs + 16)"
      using Cons.prems(5) [of "b # xs" ys] b by (simp add: add_ac)
  qed (use Cons.prems b in \<open>auto simp: add_ac\<close>)
  finally show ?case using b by (auto simp: add_ac)
qed simp


text \<open>The memory after the merge, before the header of the merged block is completed.\<close>

lemma merge_freed_after:
  assumes ok: "heap_ok k (pre @ (n, f) # post) s" and x: "x = HEAP_BASE + span pre" and m: "merge_after n post = (n1, post1)"
    and s1: "s1 = (if post1 = post then s else hst x (of_nat n1) s)"
  shows "(if pi_max_pos 0x8000000 s > of_nat x
          then
            let after = of_nat x + SIZEOF_MEM_INFOS + mi_size (of_nat x) s
            in if after < pi_max_pos 0x8000000 s \<and> mi_is_free after s = TRUE
               then mi_size_set (of_nat x) (mi_size (of_nat x) s + (SIZEOF_MEM_INFOS + mi_size after s)) s
               else s
          else s) = s1"
    and "hw s1 x = of_nat n1"
proof -
  note d = heap_okD [OF ok] and b = heap_ok_bound [OF ok]
  have h: "hdr s x n f" and bp: "blocks_at s (x + 16 + n) post" using d(7) unfolding x by (simp_all add: add_ac)
  note acc = hdr_accessors [OF h]
  have mp: "pi_max_pos 0x8000000 s = of_nat (x + 16 + n + span post)" by (simp add: page_infos_accessors d(5) x add_ac)
  have lim: "x + 16 + n + span post < 4294967296" using b(2) unfolding x by simp
  have gt: "(of_nat x :: u32) < pi_max_pos 0x8000000 s" unfolding mp using lim by (intro of_nat_less_32 [THEN iffD2]) auto
  have af: "of_nat x + SIZEOF_MEM_INFOS + mi_size (of_nat x) s = of_nat (x + 16 + n)"
    by (simp add: acc SIZEOF_MEM_INFOS_def)
  have in': "(of_nat (x + 16 + n) :: u32) < pi_max_pos 0x8000000 s \<longleftrightarrow> 0 < span post"
    unfolding mp using lim of_nat_less_32 [of "x + 16 + n" "x + 16 + n + span post"] by simp
  consider (free) m' post' where "post = (m', True) # post'" | (other) "post = [] \<or> (\<exists>m' post'. post = (m', False) # post')"
    by (cases "(n, post)" rule: merge_after.cases) auto
  then show "(if pi_max_pos 0x8000000 s > of_nat x
          then
            let after = of_nat x + SIZEOF_MEM_INFOS + mi_size (of_nat x) s
            in if after < pi_max_pos 0x8000000 s \<and> mi_is_free after s = TRUE
               then mi_size_set (of_nat x) (mi_size (of_nat x) s + (SIZEOF_MEM_INFOS + mi_size after s)) s
               else s
          else s) = s1"
  proof cases
    case free
    then have h': "hdr s (x + 16 + n) m' True" using bp by simp
    have "n1 = n + 16 + m'" "post1 = post'" using m free by auto
    moreover have "mi_size (of_nat x) s + (SIZEOF_MEM_INFOS + mi_size (of_nat (x + 16 + n)) s) = of_nat (n + 16 + m')"
      by (simp add: acc hdr_accessors(1) [OF h', simplified] SIZEOF_MEM_INFOS_def del: of_nat_add) (simp add: hdr_accessors(1) [OF h', simplified])
    ultimately show ?thesis
      using gt in' free hdr_accessors(2) [OF h'] unfolding s1 Let_def af by (simp add: accessors(7) del: of_nat_add)
  next
    case other
    then have "\<not> (0 < span post \<and> mi_is_free (of_nat (x + 16 + n)) s = TRUE)" "post1 = post"
      using bp m hdr_accessors(2) [of s "x + 16 + n" _ False] by (auto simp del: of_nat_add)
    then show ?thesis using gt in' unfolding s1 Let_def af by (auto simp del: of_nat_add)
  qed
  show "hw s1 x = of_nat n1"
  proof (cases "post1 = post")
    case True
    then have "n1 = n" using merge_after_span [OF m] by simp
    then show ?thesis using True h by (simp add: s1 hdr_def)
  qed (simp add: s1)
qed

lemma merge_freed:
  assumes ok: "heap_ok k (pre @ (n, f) # post) s" and x: "x = HEAP_BASE + span pre" and m: "merge_after n post = (n1, post1)"
    and mb: "merge_before pre n1 = (pre1, n2)" and y: "y = HEAP_BASE + span pre1"
  obtains s2 where "merge_freed_ptr 0x8000000 (of_nat x) (if pre = [] then of_nat x else of_nat (HEAP_BASE + span (butlast pre))) s =
      (of_nat y, s2)" "hw s2 y = of_nat n2"
    "\<And>b. b < y \<or> y + 16 + n2 \<le> b \<Longrightarrow> b < 0xC0000000 \<Longrightarrow> low s2 b = low s b"
    "brk_ok s2" "first s2 = first s" "kds s2 = kds s"
proof -
  note d = heap_okD [OF ok] and b = heap_ok_bound [OF ok]
  define s1 where "s1 = (if post1 = post then s else hst x (of_nat n1) s)"
  note s1 = merge_freed_after [OF ok x m s1_def]
  have xb: "x + 16 + n + span post + 4088 \<le> 0xC0000000" "x + 4 \<le> 0xC0000000" using b(2) unfolding x by simp_all
  have x1: "x + 16 + n1 + span post1 = x + 16 + n + span post" using merge_after_span [OF m] by simp
  have f1: "brk_ok s1" "first s1 = first s" "kds s1 = kds s" using d(1) xb(2) by (simp_all add: s1_def)
  have low1: "low s1 c = low s c" if "c < x \<or> x + 4 \<le> c" "c < 0xC0000000" for c
    using that xb(2) by (simp add: s1_def low_hst)
  have run: "merge_freed_ptr 0x8000000 (of_nat x) before s =
      (if before \<noteq> of_nat x \<and> mi_is_free before s1 = TRUE
       then (before, mi_size_set before (mi_size before s1 + (SIZEOF_MEM_INFOS + mi_size (of_nat x) s1)) s1)
       else (of_nat x, s1))" for before
    unfolding merge_freed_ptr_def s1(1) by (simp only: Let_def [of s1])
  show ?thesis
  proof (cases "pre \<noteq> [] \<and> snd (last pre)")
    case False
    then have eq: "pre1 = pre" "n2 = n1" "y = x" using mb x y by (auto simp: merge_before_def split: if_splits)
    have "merge_freed_ptr 0x8000000 (of_nat x) (if pre = [] then of_nat x else of_nat (HEAP_BASE + span (butlast pre))) s = (of_nat x, s1)"
    proof (cases "pre = []")
      case False
      let ?z = "HEAP_BASE + span (butlast pre)"
      have z: "?z + 16 + fst (last pre) = x" using span_last [OF False] unfolding x by simp
      have "blocks_at s HEAP_BASE (butlast pre @ [(fst (last pre), snd (last pre))])" using d(7) False by simp
      then have "hdr s ?z (fst (last pre)) (snd (last pre))" by (simp only: blocks_at_append blocks_at.simps simp_thms)
      moreover have "hw s1 (?z + 4) = hw s (?z + 4)" by (rule hw_cong) (rule low1, use z xb in auto)
      ultimately have "mi_is_free (of_nat ?z) s1 = FALSE" using \<open>\<not> (pre \<noteq> [] \<and> snd (last pre))\<close> False by (simp add: accessors hdr_def del: of_nat_add)
      then show ?thesis unfolding run using False by simp
    qed (simp add: run)
    then show ?thesis
    proof (rule that [of s1, unfolded eq])
      show "low s1 c = low s c" if "c < x \<or> x + 16 + n1 \<le> c" "c < 0xC0000000" for c using that by (intro low1) auto
    qed (use s1(2) f1 in auto)
  next
    case True
    let ?z = "HEAP_BASE + span (butlast pre)" and ?m = "fst (last pre)"
    have z: "?z + 16 + ?m = x" using span_last [of pre] True unfolding x by simp
    have eq: "pre1 = butlast pre" "n2 = ?m + 16 + n1" "y = ?z" using mb True y by (auto simp: merge_before_def)
    have "blocks_at s HEAP_BASE pre" using d(7) by simp
    then have "blocks_at s HEAP_BASE (butlast pre @ [(?m, snd (last pre))])"
      using True by (metis append_butlast_last_id prod.collapse)
    then have h: "hdr s ?z ?m True" using True by (simp only: blocks_at_append blocks_at.simps simp_thms)
    have same: "hw s1 (?z + off) = hw s (?z + off)" if "off + 4 \<le> 16" for off
      by (rule hw_cong) (rule low1, use z xb that in auto)
    have ne: "(of_nat ?z :: u32) \<noteq> of_nat x" using of_nat_eq_32 [of ?z x] z xb by simp
    have fr: "mi_is_free (of_nat ?z) s1 = TRUE" "mi_size (of_nat ?z) s1 = of_nat ?m"
      using h same [of 4] same [of 0] by (simp_all add: accessors hdr_def del: of_nat_add)
    let ?s2 = "hst ?z (of_nat n2) s1"
    have val: "of_nat ?m + (SIZEOF_MEM_INFOS + of_nat n1) = (of_nat n2 :: u32)" by (simp add: eq(2) SIZEOF_MEM_INFOS_def)
    have "merge_freed_ptr 0x8000000 (of_nat x) (if pre = [] then of_nat x else of_nat ?z) s = (of_nat ?z, ?s2)"
      unfolding run using True ne fr s1(2) val by (simp add: accessors del: of_nat_add)
    moreover have "low ?s2 c = low s c" if "c < ?z \<or> ?z + 16 + n2 \<le> c" "c < 0xC0000000" for c
      using that low1 z xb eq(2) by (subst low_hst) auto
    ultimately show ?thesis using that [of ?s2] f1 z xb unfolding eq(3) by auto
  qed
qed

lemma used_merge:
  assumes "merge_after n post = (n1, post1)" and "merge_before pre n1 = (pre1, n2)"
  shows "used a (pre1 @ (n2, True) # post1) = used a pre \<union> used (a + span pre + 16 + n) post"
proof -
  have "a + span pre1 + 16 + n2 = a + span pre + 16 + n1" using merge_before_span [OF assms(2)] by simp
  then have "used (a + span pre1 + 16 + n2) post1 = used (a + span pre + 16 + n1) post1" by (simp only:)
  moreover have "used (a + span pre + 16 + n1) post1 = used (a + span pre + 16 + n) post"
    using assms(1) by (cases "(n, post)" rule: merge_after.cases) (auto simp: add_ac)
  moreover have "used a pre1 = used a pre"
  proof (cases "pre \<noteq> [] \<and> snd (last pre)")
    case True
    then have "used a pre = used a (butlast pre @ [(fst (last pre), True)])"
      by (metis append_butlast_last_id prod.collapse)
    also have "\<dots> = used a (butlast pre)" unfolding used_append by simp
    finally show ?thesis using assms(2) True by (simp add: merge_before_def)
  next
    case False
    then show ?thesis using assms(2) by (auto simp: merge_before_def)
  qed
  ultimately show ?thesis by (simp add: add_ac)
qed

lemma used_remove:
  "used a pre \<union> used (a + span pre + 16 + n) post = used a (pre @ (n, f) # post) - {(a + span pre + 16, n)}"
proof -
  have "(a + span pre + 16, n) \<notin> used a pre" using used_range [of "a + span pre + 16" n a pre] by auto
  moreover have "(a + span pre + 16, n) \<notin> used (a + span pre + 16 + n) post"
    using used_range [of "a + span pre + 16" n "a + span pre + 16 + n" post] by auto
  ultimately show ?thesis by (auto simp: add_ac)
qed

lemma freed_block:
  assumes ok: "heap_ok k (pre @ (n, f) # post) s" and x: "x = HEAP_BASE + span pre" and m: "merge_after n post = (n1, post1)"
    and mb: "merge_before pre n1 = (pre1, n2)" and y: "y = HEAP_BASE + span pre1"
    and hw2: "hw s2 y = of_nat n2" and low2: "\<And>b. b < y \<or> y + 16 + n2 \<le> b \<Longrightarrow> b < 0xC0000000 \<Longrightarrow> low s2 b = low s b"
    and f2: "brk_ok s2" "first s2 = first s" "kds s2 = kds s"
    and s3: "s3 = hst (y + 12) (of_nat (y + 16 + n2)) (hst (y + 8) (of_nat (y + 16)) (hst (y + 4) TRUE s2))"
  shows "heap_ok k (pre1 @ (n2, True) # post1) s3" and "same_payload (pre1 @ (n2, True) # post1) s s3"
proof -
  note d = heap_okD [OF ok] and b = heap_ok_bound [OF ok]
  have sp: "span pre1 + n2 = span pre + n1" "n1 + span post1 = n + span post"
    using merge_before_span [OF mb] merge_after_span [OF m] by auto
  then have tot: "span (pre1 @ (n2, True) # post1) = span (pre @ (n, f) # post)" by simp
  then have yb: "y + 16 + n2 + span post1 + 4088 \<le> 0xC0000000" "0x8000008 \<le> y" using b(2) unfolding y by (auto simp: HEAP_BASE_def)
  have low3: "low s3 c = low s c" if "c < y \<or> y + 16 + n2 \<le> c" "c < 0xC0000000" for c
    unfolding s3 using that yb low2 [OF that] by (auto simp: low_hst)
  have hwp: "hw s3 a = hw s a" if "a + 4 \<le> 0x8000008" for a
    by (rule hw_cong) (rule low3, use that yb in auto)
  have "blocks_at s HEAP_BASE pre1" using d(7) mb
  proof (cases "pre \<noteq> [] \<and> snd (last pre)")
    case True
    have "blocks_at s HEAP_BASE (butlast pre @ [last pre])" using d(7) True by simp
    then show ?thesis using mb True unfolding blocks_at_append by (simp add: merge_before_def)
  qed (auto simp: merge_before_def)
  then have pre: "blocks_at s3 HEAP_BASE pre1"
    using blocks_at_cong [of HEAP_BASE pre1 s3 s] low3 yb unfolding y by auto
  have "blocks_at s (x + 16 + n1) post1"
    using d(7) m unfolding x by (cases "(n, post)" rule: merge_after.cases) (auto simp: add_ac)
  moreover have "x + 16 + n1 = y + 16 + n2" using sp(1) unfolding x y by simp
  moreover have "blocks_at s3 (y + 16 + n2) post1 = blocks_at s (y + 16 + n2) post1"
    by (rule blocks_at_cong) (rule low3, use yb in auto)
  ultimately have post: "blocks_at s3 (y + 16 + n2) post1" by simp
  have h: "hdr s3 y n2 True" unfolding s3 hdr_def using hw2 yb by (simp add: hw_hst_other)
  have sub: "set pre1 \<subseteq> set pre" "set post1 \<subseteq> set post" "0 < n2"
  proof -
    show "set pre1 \<subseteq> set pre" using mb by (auto simp: merge_before_def split: if_splits dest: in_set_butlastD)
    show "set post1 \<subseteq> set post" using m by (cases "(n, post)" rule: merge_after.cases) auto
    have "0 < n" using d(8) [of n f] by simp
    then have "0 < n1" using m by (cases "(n, post)" rule: merge_after.cases) auto
    then show "0 < n2" using mb by (auto simp: merge_before_def split: if_splits)
  qed
  have f3: "brk_ok s3" "first s3 = first s" "kds s3 = kds s" using f2 yb by (simp_all add: s3)
  show "heap_ok k (pre1 @ (n2, True) # post1) s3"
    unfolding heap_ok_def tot
  proof (intro conjI)
    show "blocks_at s3 HEAP_BASE (pre1 @ (n2, True) # post1)" using pre post h unfolding y by (simp add: add_ac)
    show "\<forall>(n, f) \<in> set (pre1 @ (n2, True) # post1). 0 < n"
    proof clarify
      fix p q assume "(p, q) \<in> set (pre1 @ (n2, True) # post1)"
      then have "p = n2 \<or> (p, q) \<in> set (pre @ (n, f) # post)" using sub(1,2) by auto
      then show "0 < p" using d(8) [of p q] sub(3) by auto
    qed
    show "compact (pre1 @ (n2, True) # post1)" by (rule merge_compact [OF d(9) m mb])
  qed (use d f3 hwp in auto)
  show "same_payload (pre1 @ (n2, True) # post1) s s3"
    unfolding same_payload_def
  proof clarify
    fix a l c assume "(a, l) \<in> used HEAP_BASE (pre1 @ (n2, True) # post1)" and c: "a \<le> c" "c < a + l"
    then have "(a, l) \<in> used HEAP_BASE pre1 \<or> (a, l) \<in> used (y + 16 + n2) post1" unfolding y by (auto simp: add_ac)
    then have "c < y \<or> y + 16 + n2 \<le> c" "c < 0xC0000000"
      using used_range [of a l HEAP_BASE pre1] used_range [of a l "y + 16 + n2" post1] c yb unfolding y by auto
    then show "low s3 c = low s c" by (rule low3)
  qed
qed

text \<open>
  What freeing a pointer does to the list of blocks: nothing, if no block starts there;
  otherwise the block becomes free, merged with its free neighbours, and if it is then the
  last block it may be given back.
\<close>

inductive free_spec :: "u32 \<Rightarrow> block list \<Rightarrow> block list \<Rightarrow> bool" for ptr bs where
  unknown: "(\<forall>pre b post. bs = pre @ b # post \<longrightarrow> ptr \<noteq> of_nat (HEAP_BASE + span pre + 16)) \<Longrightarrow> free_spec ptr bs bs"
| freed: "bs = pre @ (n, f) # post \<Longrightarrow> ptr = of_nat (HEAP_BASE + span pre + 16) \<Longrightarrow>
    merge_after n post = (n1, post1) \<Longrightarrow> merge_before pre n1 = (pre1, n2) \<Longrightarrow>
    free_spec ptr bs (pre1 @ (n2, True) # post1)"
| trimmed: "bs = pre @ (n, f) # post \<Longrightarrow> ptr = of_nat (HEAP_BASE + span pre + 16) \<Longrightarrow>
    merge_after n post = (n1, []) \<Longrightarrow> merge_before pre n1 = (pre1, n2) \<Longrightarrow>
    free_spec ptr bs pre1"

lemma pagesize_rm_update_cases:
  assumes ok: "heap_ok k (pre @ (n, True) # post) s" and y: "y = HEAP_BASE + span pre" and k: "k < 0x80000"
  obtains (Kept) "pagesize_rm_update 0x8000000 (of_nat y) s = Some (SUCCES, s)"
  | (Trimmed) k' s' where "pagesize_rm_update 0x8000000 (of_nat y) s = Some (SUCCES, s')" "post = []" "heap_ok k' pre s'"
      "same_payload pre s s'"
proof -
  note d = heap_okD [OF ok] and b = heap_ok_bound [OF ok]
  have h: "hdr s y n True" using d(7) unfolding y by simp
  let ?l = "HEAP_BASE + 4096 * k"
  have lim: "y + 16 + n + span post \<le> ?l" using d(6) unfolding y by simp
  have seg: "0x8000000 + SIZEOF_PAGE_INFOS + pi_nb_pages 0x8000000 s * getpagesize = (of_nat ?l :: u32)"
    unfolding first_plus by (simp add: page_infos_accessors d(4) getpagesize_def FRAME_SIZE_def)
  have last': "pi_max_pos 0x8000000 s \<le> mi_next (of_nat y) s \<longleftrightarrow> post = []"
  proof -
    have "span post = 0 \<longleftrightarrow> post = []" by (cases post) auto
    moreover have "pi_max_pos 0x8000000 s = of_nat (y + 16 + n + span post)"
      by (simp add: page_infos_accessors d(5) y add_ac)
    ultimately show ?thesis
      using of_nat_le_32 [of "y + 16 + n + span post" "y + 16 + n"] lim b(1)
      unfolding hdr_accessors(4) [OF h] by (simp del: of_nat_add)
  qed
  define nb where "nb = (?l - y) div 4096"
  have nbk: "nb \<le> k" unfolding nb_def y by (simp add: div_le_mono [where k = 4096, of _ "4096 * k", simplified])
  have dv: "sint (((of_nat ?l :: u32) - of_nat y) div getpagesize) = int nb"
  proof -
    have "(of_nat ?l :: u32) - of_nat y = of_nat (?l - y)" using lim of_nat_diff [of y ?l, where 'a = u32] by simp
    moreover have "(of_nat (?l - y) :: u32) div getpagesize = of_nat nb"
      unfolding consts_nat(3) nb_def by (rule of_nat_div_32) (use b(1) in auto)
    ultimately show ?thesis using sint_nat [of nb] nbk k by simp
  qed
  show ?thesis
  proof (cases "post = [] \<and> 0 < nb")
    case False
    then have "pagesize_rm_update 0x8000000 (of_nat y) s = Some (SUCCES, s)"
      unfolding pagesize_rm_update_def Let_def seg dv last' by auto
    then show ?thesis by (rule Kept)
  next
    case True
    have sz: "sint (- (of_int (int nb) * getpagesize :: u32)) = - int (4096 * nb)"
    proof -
      have "- (of_int (int nb) * getpagesize :: u32) = of_int (- int (4096 * nb))"
        by (simp add: getpagesize_def FRAME_SIZE_def mult.commute)
      moreover have "sint (of_int (- int (4096 * nb)) :: u32) = - int (4096 * nb)"
        using nbk k by (intro sint_of_int_32) auto
      ultimately show ?thesis by simp
    qed
    have nb: "0 < nb" "nb < 0x80000" using True nbk k by auto
    obtain r u where u: "sbrk (- int (4096 * nb)) s = Some (r, u)" "r \<noteq> MINUS_ONE" "brk_ok u" "mm_keeps s u"
      "kds u = 8 + 4096 * (k - nb)"
      by (rule kbrk.shrink_pages [OF d(1,3) nb(1) nbk nb(2)]) blast
    have low: "low u c = low s c" if "c < 0xC0000000" for c using u(4) that by (simp add: mm_keeps_def)
    have hwu: "hw u a = hw s a" if "a + 4 \<le> 0xC0000000" for a by (rule hw_cong) (use low that in auto)
    let ?s = "hst 0x8000004 (of_nat y) (hst 0x8000000 (of_nat (k - nb)) u)"
    have "pagesize_rm_update 0x8000000 (of_nat y) s = Some (SUCCES, ?s)"
      unfolding pagesize_rm_update_def Let_def seg dv last' using True u(1,2) hwu [of "0x8000000"] d(4) nbk
      by (simp add: page_infos_accessors of_nat_diff sz [unfolded of_int_of_nat_eq])
    moreover have "heap_ok (k - nb) pre ?s"
    proof -
      have lows: "low ?s c = low s c" if "0x8000008 \<le> c" "c < 0xC0000000" for c using that low by (simp add: low_hst)
      have "blocks_at ?s HEAP_BASE pre = blocks_at s HEAP_BASE pre"
        by (rule blocks_at_cong) (rule lows, use b(2) in \<open>auto simp: HEAP_BASE_def\<close>)
      moreover have "span pre \<le> 4096 * (k - nb)"
      proof -
        have "4096 * nb \<le> ?l - y" unfolding nb_def by simp
        then show ?thesis using lim nbk unfolding y by (simp add: diff_mult_distrib2)
      qed
      moreover have "first ?s = first s" using u(4) kept_first [of u s] by (simp add: mm_keeps_def)
      moreover have "hw ?s 0x8000000 = of_nat (k - nb)" by (simp add: hw_hst_other)
      ultimately show ?thesis unfolding heap_ok_def using d u(3,5) y by (auto simp: compact_append)
    qed
    moreover have "same_payload pre s ?s"
      unfolding same_payload_def
    proof clarify
      fix a l c assume "(a, l) \<in> used HEAP_BASE pre" "a \<le> c" "c < a + l"
      with used_range [of a l HEAP_BASE pre] b(2) have "0x8000008 \<le> c" "c < 0xC0000000" by (auto simp: HEAP_BASE_def)
      then show "low ?s c = low s c" using low by (simp add: low_hst)
    qed
    ultimately show ?thesis using Trimmed True by blast
  qed
qed

lemma free_ready:
  assumes ok: "heap_ok k bs s" and k: "k < 0x80000"
  shows "\<exists>s' bs' k'. free ptr s = Some s' \<and> heap_ok k' bs' s' \<and> free_spec ptr bs bs' \<and> same_payload bs' s s'"
proof -
  note d = heap_okD [OF ok] and b = heap_ok_bound [OF ok]
  have start: "free ptr s = mem_rm_loop 0x8000000 ptr (of_nat HEAP_BASE) (of_nat HEAP_BASE) s"
    unfolding free_def mem_rm_value_def get_first_value_ready [OF ok] by (simp add: first_plus Let_def)
  have walk: "free ptr s = mem_rm_loop 0x8000000 ptr (of_nat (HEAP_BASE + span pre))
      (if pre = [] then of_nat HEAP_BASE else of_nat (HEAP_BASE + span (butlast pre))) s"
    if "bs = pre @ rest" "\<And>xs ys. pre = xs @ ys \<Longrightarrow> ys \<noteq> [] \<Longrightarrow> ptr \<noteq> of_nat (HEAP_BASE + span xs + 16)" for pre rest
    unfolding start by (rule rm_loop_skip [where rest = rest]) (use d(5,7) b(2) that in \<open>auto simp: HEAP_BASE_def\<close>)
  show ?thesis
  proof (cases "\<exists>pre blk post. bs = pre @ blk # post \<and> ptr = of_nat (HEAP_BASE + span pre + 16)")
    case False
    have "free ptr s = mem_rm_loop 0x8000000 ptr (of_nat (HEAP_BASE + span bs))
      (if bs = [] then of_nat HEAP_BASE else of_nat (HEAP_BASE + span (butlast bs))) s"
    proof (rule walk [of bs "[]"])
      fix xs ys assume "bs = xs @ ys" "ys \<noteq> []"
      then show "ptr \<noteq> of_nat (HEAP_BASE + span xs + 16)" using False by (cases ys) auto
    qed simp
    also have "\<dots> = Some s" by (subst mem_rm_loop.simps) (simp add: page_infos_accessors d(5))
    finally have "free ptr s = Some s" .
    moreover have "free_spec ptr bs bs" by (rule free_spec.unknown) (use False in blast)
    moreover have "same_payload bs s s" by (simp add: same_payload_def)
    ultimately show ?thesis using ok by blast
  next
    case True
    then obtain pre n f post where bs: "bs = pre @ (n, f) # post" and ptr: "ptr = of_nat (HEAP_BASE + span pre + 16)" by auto
    obtain n1 post1 where m: "merge_after n post = (n1, post1)" by fastforce
    obtain pre1 n2 where mb: "merge_before pre n1 = (pre1, n2)" by fastforce
    note okb = ok [unfolded bs]
    define x y where "x = HEAP_BASE + span pre" and "y = HEAP_BASE + span pre1"
    have h: "hdr s x n f" using d(7) unfolding bs x_def by simp
    have xb: "x + 16 + n + span post + 4088 \<le> 0xC0000000" "0 < x" using b(2) unfolding bs x_def by (auto simp: HEAP_BASE_def)
    have here: "free ptr s = mem_rm_loop 0x8000000 ptr (of_nat x) (if pre = [] then of_nat x else of_nat (HEAP_BASE + span (butlast pre))) s"
    proof -
      have "ptr \<noteq> of_nat (HEAP_BASE + span xs + 16)" if "pre = xs @ ys" "ys \<noteq> []" for xs ys
      proof -
        have "span xs < span pre" using that by (cases ys) auto
        then show ?thesis
          using of_nat_eq_32 [of "HEAP_BASE + span pre + 16" "HEAP_BASE + span xs + 16"] xb(1) unfolding ptr x_def by simp
      qed
      from walk [OF bs this] show ?thesis unfolding x_def by (auto split: if_splits)
    qed
    obtain s2 where s2: "merge_freed_ptr 0x8000000 (of_nat x) (if pre = [] then of_nat x else of_nat (HEAP_BASE + span (butlast pre))) s =
      (of_nat y, s2)" "hw s2 y = of_nat n2" "\<And>c. c < y \<or> y + 16 + n2 \<le> c \<Longrightarrow> c < 0xC0000000 \<Longrightarrow> low s2 c = low s c"
      "brk_ok s2" "first s2 = first s" "kds s2 = kds s"
      by (rule merge_freed [OF okb x_def m mb y_def]) blast
    define s3 where "s3 = hst (y + 12) (of_nat (y + 16 + n2)) (hst (y + 8) (of_nat (y + 16)) (hst (y + 4) TRUE s2))"
    have fb: "heap_ok k (pre1 @ (n2, True) # post1) s3" "same_payload (pre1 @ (n2, True) # post1) s s3"
      by (rule freed_block [OF okb x_def m mb y_def s2(2) _ s2(4-6) s3_def], erule (1) s2(3))+
    have run: "free ptr s = map_option snd (pagesize_rm_update 0x8000000 (of_nat y) s3)"
    proof -
      have yb: "y + 16 + n2 + 4088 \<le> 0xC0000000"
        using heap_ok_bound(2) [OF fb(1)] unfolding y_def by simp
      have lt: "(of_nat x :: u32) \<noteq> NULL" "(of_nat x :: u32) < pi_max_pos 0x8000000 s"
        using xb of_nat_eq_0_32 [of x] of_nat_less_32 [of x "x + 16 + n + span post"]
        by (simp_all add: page_infos_accessors d(5) bs x_def add_ac)
      have beg: "mi_begin (of_nat x) s = ptr" using hdr_accessors(3) [OF h] unfolding ptr x_def .
      have "hw (hst (y + 8) (of_nat (y + 16)) (hst (y + 4) TRUE s2)) y = of_nat n2"
        using s2(2) yb by (simp add: hw_hst_other)
      then have "mi_next_set (of_nat y) (mi_begin (of_nat y) (hst (y + 8) (of_nat (y + 16)) (hst (y + 4) TRUE s2)) +
          mi_size (of_nat y) (hst (y + 8) (of_nat (y + 16)) (hst (y + 4) TRUE s2)))
          (hst (y + 8) (of_nat (y + 16)) (hst (y + 4) TRUE s2)) = s3"
        unfolding accessors s3_def by (simp only: hw_hst_same hst_to_nat)
      then show ?thesis
        unfolding here by (subst mem_rm_loop.simps)
          (simp add: lt beg s2(1) Let_def accessors(8,9) hst_to_nat(1) del: of_nat_add split: option.split bind_split)
    qed
    show ?thesis
    proof (cases rule: pagesize_rm_update_cases [OF fb(1) y_def k])
      case 1
      then have "free ptr s = Some s3" unfolding run by simp
      then show ?thesis using fb free_spec.freed [OF bs ptr m mb] by blast
    next
      case (2 k' u)
      then have "free ptr s = Some u" unfolding run by simp
      moreover have "same_payload pre1 s u"
      proof -
        have "same_payload pre1 s s3" using fb(2) unfolding same_payload_def by auto
        then show ?thesis using 2(4) by (rule same_payload_trans)
      qed
      ultimately show ?thesis using 2(2,3) free_spec.trimmed [OF bs ptr m [unfolded 2(2)] mb] by blast
    qed
  qed
qed

end
