(* ===== verification/HeapSpec.thy ===== *)
theory HeapSpec
  imports HeapProps
begin

text \<open>
  The heap as its clients see it: a set of blocks in use, each an address and a length.
  The contract of an allocator on such sets is the locale \<open>block_allocator\<close>, with a client
  that fills and copies blocks; \<open>deallocator\<close> adds \<open>free\<close>. The model of \<open>kmalloc\<close> and
  \<open>free\<close> is an instance, and \<open>calloc\<close>, \<open>realloc\<close> and sequences of allocations are verified
  against the contract.
\<close>

subsection \<open>The blocks in use\<close>

lemma used_split: "(a, n) \<in> used b bs \<Longrightarrow> \<exists>pre post. bs = pre @ (n, False) # post \<and> a = b + span pre + 16"
proof (induction b bs rule: used.induct)
  case (2 b m f bs)
  show ?case
  proof (cases "(a, n) \<in> used (b + 16 + m) bs")
    case True
    then obtain pre post where "bs = pre @ (n, False) # post" "a = b + 16 + m + span pre + 16" using "2.IH" by auto
    then show ?thesis by (intro exI [of _ "(m, f) # pre"] exI [of _ post]) simp
  next
    case False
    with "2.prems" have "f = False" "a = b + 16" "n = m" by (auto split: if_splits)
    then show ?thesis by (intro exI [of _ "[]"] exI [of _ bs]) simp
  qed
qed simp

lemma span_position:
  "pre @ x # post = pre' @ x' # post' \<Longrightarrow> span pre = span pre' \<Longrightarrow> pre = pre' \<and> x = x' \<and> post = post'"
proof (induction pre arbitrary: pre')
  case Nil
  then show ?case by (cases pre'; cases x) auto
next
  case (Cons b pre)
  then show ?case by (cases pre'; cases b) auto
qed

lemma kmalloc_spec_used:
  assumes "kmalloc_spec room n bs r bs'" and "HEAP_BASE + span bs' < 4294967296"
  shows "r = NULL \<and> bs' = bs \<or>
    (\<exists>a m. r = of_nat a \<and> r \<noteq> NULL \<and> n \<le> m \<and> used HEAP_BASE bs' = insert (a, m) (used HEAP_BASE bs) \<and>
      (\<forall>(c, l) \<in> used HEAP_BASE bs. a + m \<le> c \<or> c + l \<le> a \<and> c < a))"
  using assms
proof (induction rule: kmalloc_spec.induct)
  case (reuse pre m post)
  define a k where "a = HEAP_BASE + span pre + 16" and "k = (if n + 17 \<le> m \<and> m - n < 0x80000000 then n else m)"
  have k: "n \<le> k" "k \<le> m" using reuse(2) by (simp_all add: k_def)
  have "a + m + span post = HEAP_BASE + span bs" using reuse(1) by (simp add: a_def)
  moreover have "span (pre @ split_fit n m @ post) = span bs" by (simp add: span_split_fit reuse(1))
  ultimately have r: "(of_nat a :: u32) \<noteq> NULL" using of_nat_eq_0_32 [of a] reuse(4) by (simp add: a_def)
  have u: "used HEAP_BASE bs = used HEAP_BASE pre \<union> used (a + m) post"
    unfolding reuse(1) a_def by (simp add: add_ac)
  have "used (HEAP_BASE + span pre) (split_fit n m) = {(a, k)}" by (simp add: split_fit_def a_def k_def)
  then have "used HEAP_BASE (pre @ split_fit n m @ post) = insert (a, k) (used HEAP_BASE bs)"
    unfolding used_append u a_def by (simp add: span_split_fit add_ac)
  moreover have "a + k \<le> c \<or> c + l \<le> a \<and> c < a" if "(c, l) \<in> used HEAP_BASE bs" for c l
    using that used_range [of c l HEAP_BASE pre] used_range [of c l "a + m" post] k unfolding u a_def by auto
  ultimately show ?case using r k(1) unfolding a_def [symmetric]
    by (intro disjI2 exI [of _ a] exI [of _ k]) auto
next
  case extend
  define a where "a = HEAP_BASE + span bs + 16"
  have "(of_nat a :: u32) \<noteq> NULL" using of_nat_eq_0_32 [of a] extend(2) by (simp add: a_def)
  moreover have "c + l \<le> a \<and> c < a" if "(c, l) \<in> used HEAP_BASE bs" for c l
    using used_range [OF that] by (auto simp: a_def)
  ultimately show ?case unfolding a_def [symmetric]
    by (intro disjI2 exI [of _ a] exI [of _ n]) (auto simp: a_def)
qed simp

lemma free_spec_used:
  assumes "free_spec (of_nat a) bs bs'" and "(a, n) \<in> used HEAP_BASE bs" and b: "HEAP_BASE + span bs + 16 < 4294967296"
  shows "used HEAP_BASE bs' = used HEAP_BASE bs - {(a, n)}"
proof -
  obtain pre post where bs: "bs = pre @ (n, False) # post" and a: "a = HEAP_BASE + span pre + 16"
    using used_split [OF assms(2)] by blast
  have same: "pre' = pre \<and> n' = n \<and> f' = False \<and> post' = post"
    if "bs = pre' @ (n', f') # post'" "(of_nat a :: u32) = of_nat (HEAP_BASE + span pre' + 16)" for pre' n' f' post'
  proof -
    have "a < 4294967296" using b bs by (simp add: a)
    moreover have "HEAP_BASE + span pre' + 16 < 4294967296" using b that(1) by simp
    ultimately have "span pre = span pre'" using that(2) of_nat_eq_32 [of a "HEAP_BASE + span pre' + 16"] by (simp add: a)
    then show ?thesis using span_position [of pre "(n, False)" post pre' "(n', f')" post'] bs that(1) by simp
  qed
  note rem = used_remove [of HEAP_BASE pre n post False, folded bs a]
  show ?thesis
    using assms(1)
  proof cases
    case unknown
    then show ?thesis using bs a by blast
  next
    case (freed pre' n' f' post' n1 post1 pre1 n2)
    then have "used HEAP_BASE bs' = used HEAP_BASE pre \<union> used (a + n) post"
      using same [OF freed(2,3)] used_merge [OF freed(4,5), of HEAP_BASE] by (simp add: a)
    then show ?thesis using rem by simp
  next
    case (trimmed pre' n' f' post' n1 n2)
    have "used HEAP_BASE bs' = used HEAP_BASE (bs' @ (n2, True) # [])" by simp
    then have "used HEAP_BASE bs' = used HEAP_BASE pre \<union> used (a + n) post"
      using same [OF trimmed(1,2)] used_merge [OF trimmed(3,4), of HEAP_BASE] by (simp add: a)
    then show ?thesis using rem by simp
  qed
qed

subsection \<open>Contract\<close>

definition apart :: "nat \<Rightarrow> nat \<Rightarrow> (nat \<times> nat) set \<Rightarrow> bool" where
  "apart a n U \<longleftrightarrow> (\<forall>(c, l) \<in> U. a + n \<le> c \<or> c + l \<le> a)"

definition same_on :: "(nat \<times> nat) set \<Rightarrow> (u32 \<Rightarrow> u8) \<Rightarrow> (u32 \<Rightarrow> u8) \<Rightarrow> bool" where
  "same_on U M M' \<longleftrightarrow> (\<forall>(c, l) \<in> U. \<forall>y. c \<le> y \<and> y < c + l \<longrightarrow> M' (of_nat y) = M (of_nat y))"

lemma same_on_trans [trans]: "same_on U M M' \<Longrightarrow> same_on U M' M'' \<Longrightarrow> same_on U M M''"
  unfolding same_on_def by fastforce

lemma same_on_refl [simp]: "same_on U M M"
  by (simp add: same_on_def)

lemma same_on_subset: "same_on U M M' \<Longrightarrow> V \<subseteq> U \<Longrightarrow> same_on V M M'"
  unfolding same_on_def by blast

lemma same_on_outside:
  assumes "apart a n U" and "\<And>y. y < 4294967296 \<Longrightarrow> y < a \<or> a + n \<le> y \<Longrightarrow> M' (of_nat y) = M (of_nat y)"
    and "\<And>c l. (c, l) \<in> U \<Longrightarrow> c + l < 4294967296"
  shows "same_on U M M'"
  unfolding same_on_def
proof clarify
  fix c l y assume U: "(c, l) \<in> U" and y: "c \<le> y" "y < c + l"
  then have "y < a \<or> a + n \<le> y" "y < 4294967296" using assms(1,3) unfolding apart_def by fastforce+
  then show "M' (of_nat y) = M (of_nat y)" using assms(2) by blast
qed

lemma memset_outside:
  assumes "n \<le> m" and "a + m < 4294967296" and "y < a \<or> a + m \<le> y" and "y < 4294967296"
  shows "memset M (of_nat a) v (of_nat n) (of_nat y) = M (of_nat y)"
  using memset_nat [of a n y M v] assms by auto

lemma memcpy_nat:
  assumes "d + n < 4294967296" and "p + n < 4294967296" and "d + n \<le> p \<or> p + n \<le> d" and "y < 4294967296"
  shows "memcpy M (of_nat d) (of_nat p) (of_nat n) (of_nat y) =
    (if d \<le> y \<and> y < d + n then M (of_nat (p + (y - d))) else M (of_nat y))"
proof -
  have "(of_nat n :: u32) \<le> of_nat d - of_nat p"
    using assms(1-3) by (auto simp: word_le_nat_alt unat_sub_if' unat_of_nat_32)
  moreover have "(of_nat y :: u32) - of_nat d < of_nat n \<longleftrightarrow> d \<le> y \<and> y < d + n"
    using assms(1,4) by (auto simp: word_less_nat_alt unat_sub_if' unat_of_nat_32)
  moreover have "(of_nat p :: u32) + (of_nat y - of_nat d) = of_nat (p + (y - d))" if "d \<le> y"
    using that by (simp add: of_nat_diff)
  ultimately show ?thesis by (cases "d \<le> y \<and> y < d + n") (simp_all only: memcpy_byte if_True if_False simp_thms)
qed

text \<open>
  \<open>live s U\<close> says that \<open>U\<close> is the set of blocks in use; \<open>bytes\<close> and \<open>poke\<close> read and replace
  memory, \<open>size_at\<close> is the length recorded for a block, and \<open>lim\<close> bounds the requests.
\<close>

locale block_allocator =
  fixes alloc :: "u32 \<Rightarrow> 's \<Rightarrow> (u32 \<times> 's) option" and live :: "'s \<Rightarrow> (nat \<times> nat) set \<Rightarrow> bool"
    and bytes :: "'s \<Rightarrow> u32 \<Rightarrow> u8" and poke :: "(u32 \<Rightarrow> u8) \<Rightarrow> 's \<Rightarrow> 's"
    and size_at :: "u32 \<Rightarrow> 's \<Rightarrow> u32" and lim :: nat
  assumes alloc_law: "live s U \<Longrightarrow> 0 < n \<Longrightarrow> n < lim \<Longrightarrow> \<exists>r s'. alloc (of_nat n) s = Some (r, s') \<and>
      same_on U (bytes s) (bytes s') \<and> (r = NULL \<and> live s' U \<or>
       (\<exists>a m. r = of_nat a \<and> r \<noteq> NULL \<and> n \<le> m \<and> live s' (insert (a, m) U) \<and> apart a m U))"
    and bounded: "live s U \<Longrightarrow> (a, m) \<in> U \<Longrightarrow> a + m < 4294967296"
    and nonempty: "live s U \<Longrightarrow> (a, m) \<in> U \<Longrightarrow> 0 < m"
    and sized: "live s U \<Longrightarrow> (a, m) \<in> U \<Longrightarrow> size_at (of_nat a) s = of_nat m"
    and write_law: "live s U \<Longrightarrow> (a, m) \<in> U \<Longrightarrow>
      (\<And>y. y < 4294967296 \<Longrightarrow> y < a \<or> a + m \<le> y \<Longrightarrow> M (of_nat y) = bytes s (of_nat y)) \<Longrightarrow> live (poke M s) U"
    and bytes_write [simp]: "bytes (poke M s) = M"
begin

lemma write_block:
  assumes "live s (insert (a, m) U)" and "apart a m U"
    and "\<And>y. y < 4294967296 \<Longrightarrow> y < a \<or> a + m \<le> y \<Longrightarrow> M (of_nat y) = bytes s (of_nat y)"
  shows "live (poke M s) (insert (a, m) U)" and "same_on U (bytes s) (bytes (poke M s))"
proof -
  show "live (poke M s) (insert (a, m) U)" by (rule write_law [OF assms(1), of a m]) (use assms(3) in simp_all)
  show "same_on U (bytes s) (bytes (poke M s))"
    by (rule same_on_outside [OF assms(2)]) (use assms(3) bounded [OF assms(1)] in simp_all)
qed

text \<open>Allocating a block and filling its first \<open>n\<close> bytes.\<close>

lemma alloc_fill:
  assumes "live s U" and "0 < n" and "n < lim"
  obtains (Full) s' where "alloc (of_nat n) s = Some (NULL, s')" "live s' U" "same_on U (bytes s) (bytes s')"
  | (Filled) a m s' s'' where "alloc (of_nat n) s = Some (of_nat a, s')" "(of_nat a :: u32) \<noteq> NULL" "n \<le> m"
      "s'' = poke (memset (bytes s') (of_nat a) v (of_nat n)) s'" "live s'' (insert (a, m) U)" "apart a m U"
      "same_on U (bytes s) (bytes s'')" "\<And>y. a \<le> y \<Longrightarrow> y < a + n \<Longrightarrow> bytes s'' (of_nat y) = ucast v"
proof -
  obtain r s' where s': "alloc (of_nat n) s = Some (r, s')" "same_on U (bytes s) (bytes s')"
    "r = NULL \<and> live s' U \<or> (\<exists>a m. r = of_nat a \<and> r \<noteq> NULL \<and> n \<le> m \<and> live s' (insert (a, m) U) \<and> apart a m U)"
    using alloc_law [OF assms] by blast
  show ?thesis
  proof (cases "r = NULL")
    case True
    then show ?thesis using Full s' by blast
  next
    case False
    with s'(3) obtain a m where a: "r = of_nat a" "n \<le> m" "live s' (insert (a, m) U)" "apart a m U" by blast
    have lt: "a + m < 4294967296" using bounded [OF a(3)] by simp
    define M where "M = memset (bytes s') (of_nat a) v (of_nat n)"
    have out: "M (of_nat y) = bytes s' (of_nat y)" if "y < 4294967296" "y < a \<or> a + m \<le> y" for y
      unfolding M_def using that a(2) lt by (intro memset_outside) auto
    note w = write_block [OF a(3,4) out]
    have "bytes (poke M s') (of_nat y) = ucast v" if "a \<le> y" "y < a + n" for y
      using memset_nat [of a n y "bytes s'" v] that a(2) lt by (simp add: M_def)
    then show ?thesis
      using Filled [of a s' m "poke M s'"] s' a False w same_on_trans [OF s'(2) w(2)] by (simp add: M_def)
  qed
qed

text \<open>Allocating a block and copying another one into it.\<close>

lemma alloc_copy:
  assumes "live s U" and "(p, l) \<in> U" and "l < n" and "n < lim"
  obtains (Full) s' where "alloc (of_nat n) s = Some (NULL, s')" "live s' U" "same_on U (bytes s) (bytes s')"
  | (Copied) a m s' s'' where "alloc (of_nat n) s = Some (of_nat a, s')" "(of_nat a :: u32) \<noteq> NULL" "n \<le> m"
      "s'' = poke (memcpy (bytes s') (of_nat a) (of_nat p) (size_at (of_nat p) s')) s'" "live s'' (insert (a, m) U)"
      "apart a m U" "same_on U (bytes s) (bytes s'')"
      "\<And>y. y < l \<Longrightarrow> bytes s'' (of_nat (a + y)) = bytes s (of_nat (p + y))"
proof -
  obtain r s' where s': "alloc (of_nat n) s = Some (r, s')" "same_on U (bytes s) (bytes s')"
    "r = NULL \<and> live s' U \<or> (\<exists>a m. r = of_nat a \<and> r \<noteq> NULL \<and> n \<le> m \<and> live s' (insert (a, m) U) \<and> apart a m U)"
    using alloc_law [OF assms(1), of n] assms(3,4) by auto
  show ?thesis
  proof (cases "r = NULL")
    case True
    then show ?thesis using Full s' by blast
  next
    case False
    with s'(3) obtain a m where a: "r = of_nat a" "n \<le> m" "live s' (insert (a, m) U)" "apart a m U" by blast
    have lt: "a + m < 4294967296" "p + l < 4294967296" using bounded [OF a(3)] assms(2) by auto
    have sz: "size_at (of_nat p) s' = of_nat l" using sized [OF a(3)] assms(2) by simp
    have dj: "a + m \<le> p \<or> p + l \<le> a" using a(4) assms(2) by (auto simp: apart_def)
    define M where "M = memcpy (bytes s') (of_nat a) (of_nat p) (size_at (of_nat p) s')"
    have M: "M (of_nat y) = (if a \<le> y \<and> y < a + l then bytes s' (of_nat (p + (y - a))) else bytes s' (of_nat y))"
      if "y < 4294967296" for y
      unfolding M_def sz by (rule memcpy_nat) (use that lt dj a(2) assms(3) in auto)
    have out: "M (of_nat y) = bytes s' (of_nat y)" if "y < 4294967296" "y < a \<or> a + m \<le> y" for y
      using M [OF that(1)] that a(2) assms(3) by auto
    note w = write_block [OF a(3,4) out]
    have "bytes (poke M s') (of_nat (a + y)) = bytes s (of_nat (p + y))" if "y < l" for y
      using M [of "a + y"] that lt a(2) assms(2,3) s'(2) by (auto simp: same_on_def simp del: of_nat_add)
    then show ?thesis
      using Copied [of a s' m "poke M s'"] s' a False w same_on_trans [OF s'(2) w(2)] by (simp add: M_def)
  qed
qed

end

text \<open>Giving blocks back, in states in which \<open>small\<close> holds.\<close>

locale deallocator = block_allocator +
  fixes dealloc :: "u32 \<Rightarrow> 's \<Rightarrow> 's option" and small :: "'s \<Rightarrow> bool"
  assumes dealloc_law: "live s U \<Longrightarrow> (a, m) \<in> U \<Longrightarrow> small s \<Longrightarrow>
    \<exists>s'. dealloc (of_nat a) s = Some s' \<and> live s' (U - {(a, m)}) \<and> same_on (U - {(a, m)}) (bytes s) (bytes s')"
begin

text \<open>Allocating and giving back leaves the blocks in use and their contents as before.\<close>

lemma alloc_dealloc:
  assumes "live s U" and "0 < n" and "n < lim" and "alloc (of_nat n) s = Some (r, s1)" and "r \<noteq> NULL" and "small s1"
  shows "\<exists>s2. dealloc r s1 = Some s2 \<and> live s2 U \<and> same_on U (bytes s) (bytes s2)"
proof -
  obtain a m where a: "r = of_nat a" "n \<le> m" "live s1 (insert (a, m) U)" "apart a m U" and same: "same_on U (bytes s) (bytes s1)"
    using alloc_law [OF assms(1-3)] assms(4,5) by auto
  have new: "(a, m) \<notin> U" using a(2,4) assms(2) by (auto simp: apart_def)
  then have "insert (a, m) U - {(a, m)} = U" by blast
  with dealloc_law [OF a(3) insertI1 assms(6)] obtain s2 where
    "dealloc (of_nat a) s1 = Some s2" "live s2 U" "same_on U (bytes s1) (bytes s2)" by auto
  then show ?thesis using same_on_trans [OF same] a(1) by blast
qed

end

subsection \<open>kmalloc and free meet the contract\<close>

definition live :: "'a heap_scheme \<Rightarrow> (nat \<times> nat) set \<Rightarrow> bool" where
  "live s U \<longleftrightarrow> (\<exists>bs. heap_rep s bs \<and> U = used HEAP_BASE bs)"

definition put_mem :: "(u32 \<Rightarrow> u8) \<Rightarrow> 'a machine_scheme \<Rightarrow> 'a machine_scheme" where
  "put_mem M s = s\<lparr>mem := M\<rparr>"

definition block_size :: "u32 \<Rightarrow> 'a machine_scheme \<Rightarrow> u32" where
  "block_size ptr s = mi_size (ptr - SIZEOF_MEM_INFOS) s"

text \<open>A heap of less than 2 GB, which the \<open>int\<close> argument of \<open>sbrk\<close> can give back in one step.\<close>

definition small_heap :: "'a heap_scheme \<Rightarrow> bool" where
  "small_heap s \<longleftrightarrow> kds s < 0x80000000"

abbreviation KMALLOC_LIMIT :: nat where "KMALLOC_LIMIT \<equiv> 0x3FFF0000"

lemma heap_rep_range: "heap_rep s bs \<Longrightarrow> HEAP_BASE + span bs + 4088 \<le> 0xC0000000"
  using heap_ok_bound(2) by (fastforce simp: heap_rep_def HEAP_BASE_def)

lemma same_payload_on:
  assumes "same_payload bs s s'"
  shows "same_on (used HEAP_BASE bs) (mem s) (mem s')"
  using assms by (simp add: same_payload_def same_on_def low_def)

lemma kmalloc_live:
  assumes "live s U" and "0 < n" and "n < KMALLOC_LIMIT"
  shows "\<exists>r s'. kmalloc (of_nat n) s = Some (r, s') \<and> same_on U (mem s) (mem s') \<and> (r = NULL \<and> live s' U \<or>
    (\<exists>a m. r = of_nat a \<and> r \<noteq> NULL \<and> n \<le> m \<and> live s' (insert (a, m) U) \<and> apart a m U))"
proof -
  obtain bs where bs: "heap_rep s bs" and U: "U = used HEAP_BASE bs" using assms(1) by (auto simp: live_def)
  obtain r s' bs' where s': "kmalloc (of_nat n) s = Some (r, s')" "heap_rep s' bs'" "kmalloc_spec (kds s - 8) n bs r bs'" "same_payload bs s s'"
    using kmalloc_step [OF bs assms(2,3)] by blast
  have "HEAP_BASE + span bs' < 4294967296" using heap_rep_range [OF s'(2)] by simp
  from kmalloc_spec_used [OF s'(3) this] show ?thesis
    using s' same_payload_on [OF s'(4)] U by (fastforce simp: live_def apart_def)
qed

lemma live_ready: "live s U \<Longrightarrow> (a, m) \<in> U \<Longrightarrow> \<exists>bs k. heap_ok k bs s \<and> U = used HEAP_BASE bs"
  by (auto simp: live_def heap_rep_def)

lemma free_live:
  assumes "live s U" and "(a, m) \<in> U" and "small_heap s"
  shows "\<exists>s'. free (of_nat a) s = Some s' \<and> live s' (U - {(a, m)}) \<and> same_on (U - {(a, m)}) (mem s) (mem s')"
proof -
  obtain bs k where ok: "heap_ok k bs s" and U: "U = used HEAP_BASE bs" using live_ready [OF assms(1,2)] by blast
  have "k < 0x80000" using heap_okD(3) [OF ok] assms(3) by (simp add: small_heap_def)
  then obtain s' bs' k' where s': "free (of_nat a) s = Some s'" "heap_ok k' bs' s'" "free_spec (of_nat a) bs bs'" "same_payload bs' s s'"
    using free_ready [OF ok] by blast
  have "HEAP_BASE + span bs + 16 < 4294967296" using heap_ok_bound(2) [OF ok] by simp
  then have "used HEAP_BASE bs' = U - {(a, m)}" using free_spec_used [OF s'(3)] assms(2) U by simp
  then show ?thesis using s' same_payload_on [OF s'(4)] by (auto simp: live_def heap_rep_def)
qed

lemma brk_ok_cong:
  fixes s s' :: "'a kmem_scheme"
  assumes "brk_ok s" and same: "\<And>y. 0xC0100000 \<le> y \<Longrightarrow> y < 4294967296 \<Longrightarrow> mem s' (of_nat y) = mem s (of_nat y)"
    and g: "g_frame_page_directory s' = g_frame_page_directory s" "g_frames_context s' = g_frames_context s" "g_kds_size s' = g_kds_size s"
  shows "brk_ok s'"
proof -
  have ld: "load32 (mem s') (of_nat y) = load32 (mem s) (of_nat y)" if "0xC0100000 \<le> y" "y + 4 \<le> 4294967296" for y
    by (rule load32_cong_nat) (rule same, use that in auto)
  have pd: "0xC0100000 \<le> pdn s" "pdn s + 4096 \<le> 0xC0400000" and ok: "paging_ok s"
    using assms(1) paging_ok_placed by (auto simp: brk_ok_def pd_placed_def)
  have "paging_ok s'"
    by (rule paging_ok_cong [OF ok g(1)]) (use pd in \<open>auto simp: pde_w_def pdn_def g intro!: ld simp del: of_nat_add\<close>)
  moreover have "pte_w s' q = pte_w s q" if "q < 0x100000" for q
    using ld [of "pta q"] that by (simp add: pte_w_def pta_def)
  moreover have "kds s' = kds s" "frames_ok s' = frames_ok s" by (simp_all add: kds_def frames_ok_def nframes_def g)
  ultimately show ?thesis using assms(1) by (auto simp: brk_ok_def segment_present_def KDS_BASE_def KDS_TOP_def)
qed

lemma live_put_mem:
  assumes "live s U" and "(a, m) \<in> U"
    and same: "\<And>y. y < 4294967296 \<Longrightarrow> y < a \<or> a + m \<le> y \<Longrightarrow> M (of_nat y) = mem s (of_nat y)"
  shows "live (put_mem M s) U"
proof -
  obtain bs k where ok: "heap_ok k bs s" and U: "U = used HEAP_BASE bs" using live_ready [OF assms(1,2)] by blast
  obtain pre post where bs: "bs = pre @ (m, False) # post" and a: "a = HEAP_BASE + span pre + 16"
    using used_split assms(2) U by blast
  note d = heap_okD [OF ok] and b = heap_ok_bound [OF ok]
  have end': "a + m + span post + 4088 \<le> 0xC0000000" using b(2) by (simp add: bs a)
  let ?s = "put_mem M s"
  have low: "low ?s y = low s y" if "y < 4294967296" "y < a \<or> a + m \<le> y" for y
    using same [OF that] by (simp add: low_def put_mem_def)
  have hw: "hw ?s y = hw s y" if "y + 4 \<le> HEAP_BASE" for y
    by (rule hw_cong) (rule low, use that end' in \<open>auto simp: a HEAP_BASE_def\<close>)
  have "blocks_at ?s HEAP_BASE pre = blocks_at s HEAP_BASE pre"
    by (rule blocks_at_cong) (rule low, use end' in \<open>auto simp: a\<close>)
  moreover have "hdr ?s (HEAP_BASE + span pre) m False = hdr s (HEAP_BASE + span pre) m False"
    by (rule hdr_cong) (rule low, use end' in \<open>auto simp: a\<close>)
  moreover have "blocks_at ?s (a + m) post = blocks_at s (a + m) post"
    by (rule blocks_at_cong) (rule low, use end' in \<open>auto simp: a\<close>)
  ultimately have "blocks_at ?s HEAP_BASE bs" using d(7) by (simp add: bs a)
  moreover have "brk_ok ?s"
  proof (rule brk_ok_cong [OF d(1)])
    fix y :: nat assume "0xC0100000 \<le> y" "y < 4294967296"
    then show "mem ?s (of_nat y) = mem s (of_nat y)" using same [of y] end' by (simp add: put_mem_def)
  qed (simp_all add: put_mem_def)
  moreover have "first ?s = first s" "kds ?s = kds s" by (simp_all add: put_mem_def kds_def)
  ultimately have "heap_ok k bs ?s"
    using ok hw [of "0x8000000"] hw [of "0x8000004"] by (simp add: heap_ok_def HEAP_BASE_def)
  then show ?thesis using U by (auto simp: live_def heap_rep_def)
qed

lemma live_block:
  assumes "live s U" and "(a, m) \<in> U"
  shows "a + m < 4294967296" and "block_size (of_nat a) s = of_nat m" and "0 < a" and "0 < m"
proof -
  obtain bs k where ok: "heap_ok k bs s" and U: "U = used HEAP_BASE bs" using live_ready [OF assms] by blast
  obtain pre post where bs: "bs = pre @ (m, False) # post" and a: "a = HEAP_BASE + span pre + 16"
    using used_split assms(2) U by blast
  show "a + m < 4294967296" "0 < a" using heap_ok_bound(2) [OF ok] by (simp_all add: bs a)
  show "0 < m" using heap_okD(8) [OF ok, of m False] by (simp add: bs)
  have "hdr s (HEAP_BASE + span pre) m False" using heap_okD(7) [OF ok] by (simp add: bs)
  from hdr_accessors(1) [OF this] show "block_size (of_nat a) s = of_nat m"
    by (simp add: block_size_def SIZEOF_MEM_INFOS_def a)
qed

interpretation kheap: deallocator kmalloc live mem put_mem block_size KMALLOC_LIMIT free small_heap
proof (unfold_locales, goal_cases)
  case (1 s U n)
  then show ?case by (rule kmalloc_live)
next
  case (2 s U a m)
  then show ?case by (rule live_block)
next
  case (3 s U a m)
  then show ?case by (rule live_block)
next
  case (4 s U a m)
  then show ?case by (rule live_block)
next
  case (5 s U a m M)
  then show ?case by (rule live_put_mem)
next
  case (6 M s)
  show ?case by (simp add: put_mem_def)
next
  case (7 s U a m)
  then show ?case by (rule free_live)
qed

end
