(* ===== verification/HeapClient.thy ===== *)
theory HeapClient
  imports HeapSpec
begin

text \<open>
  The properties of the kernel heap: refinement of the operations on lists of blocks, the
  effect of \<open>calloc\<close> and \<open>realloc\<close>, and the safety of every sequence of operations that a
  client can run.
\<close>

subsection \<open>Heaps to start from\<close>

lemma brk_ok_first [simp]: "brk_ok (s\<lparr>first := a\<rparr>) = brk_ok s" and kds_first [simp]: "kds (s\<lparr>first := a\<rparr>) = kds s"
proof -
  have "paging_ok (s\<lparr>first := a\<rparr>) = paging_ok s" by (simp add: paging_ok_def pd_placed_def pdn_def pde_w_def)
  then show "brk_ok (s\<lparr>first := a\<rparr>) = brk_ok s" "kds (s\<lparr>first := a\<rparr>) = kds s"
    by (simp_all add: brk_ok_def frames_ok_def nframes_def kds_def segment_present_def pte_w_def)
qed

text \<open>The heap after the boot, before its first use.\<close>

definition fresh_heap :: heap where
  "fresh_heap = (booted \<lparr>first = 0\<rparr>)\<lparr>first := 0\<rparr>"

lemma fresh_heap_rep: "heap_rep fresh_heap []"
  using booted_ok [of "\<lparr>first = 0\<rparr>"] by (simp add: heap_rep_def fresh_heap_def)

lemma fresh_heap_live: "live fresh_heap {}"
  using fresh_heap_rep by (auto simp: live_def)

text \<open>A heap with one page that is not in use yet.\<close>

lemma ready_heap: "\<exists>s :: heap. heap_ok 1 [] s"
proof -
  let ?b = "booted \<lparr>first = 0\<rparr>"
  have ok: "paging_ok ?b" "frames_ok ?b" using booted_ok(1) [of "\<lparr>first = 0\<rparr>"] by (simp_all add: brk_ok_def)
  obtain m r u where u: "m \<le> 2" "if m = 2 then r = SUCCES else r = FAILED \<and> \<not> mappable ?b (0x8000 + m)"
    "mapped 0x8000 0 m (PF_PRES OR PF_RW) ?b u" "paging_ok u" "mm_keeps ?b u"
    by (rule map_pages_cases [OF ok(1), of "0x8000" 0 2 "PF_PRES OR PF_RW"]) auto
  have "m = 2"
    using u(1,2) booted_tables [of "0x8000 + m" "\<lparr>first = 0\<rparr>"] by (auto simp: mappable_def user_pde split: if_splits)
  then have pres: "bit (pte_w u (0x8000 + q)) 0" if "q < 2" for q
    using mapped_mono [OF u(3), of "0x8000 + q"] that by auto
  let ?v = "u\<lparr>g_kds_size := 4104\<rparr>"
  have "pages_of 4104 = 2" by (simp add: pages_of_def)
  then have "brk_ok ?v"
    using u(4) frames_ok_keeps [OF ok(2) u(5)] pres
    by (auto simp: brk_ok_def paging_ok_kds kds_def segment_present_def pte_w_def frames_ok_def nframes_def KDS_BASE_def KDS_TOP_def)
  moreover have "kds ?v = 4104" by (simp add: kds_def)
  ultimately have "heap_ok 1 [] (hst 0x8000004 (of_nat HEAP_BASE) (hst 0x8000000 1 (?v\<lparr>first := 0x8000000\<rparr>)))"
    by (simp add: heap_ok_def hw_hst_other)
  then show ?thesis by blast
qed

lemma ready_kmalloc: "\<exists>(s :: heap) r s'. live s {} \<and> kmalloc (of_nat 100) s = Some (r, s') \<and> r \<noteq> NULL \<and> small_heap s'"
proof -
  obtain s :: heap where ok: "heap_ok 1 [] s" using ready_heap by blast
  obtain r s' bs' k' where s': "kmalloc (of_nat 100) s = Some (r, s')" "heap_ok k' bs' s'" "kmalloc_spec (4096 * 1) 100 [] r bs'"
    "span bs' \<le> 4096 * 1 \<longrightarrow> k' = 1"
    using kmalloc_ready [OF ok, of 100] by auto
  from s'(3) have "r \<noteq> NULL \<and> bs' = [(100, False)]" by cases (simp_all add: HEAP_BASE_def)
  moreover from this s'(2,4) have "small_heap s'" by (simp add: small_heap_def heap_ok_def)
  moreover have "live s {}" using ok by (auto simp: live_def heap_rep_def)
  ultimately show ?thesis using s'(1) by blast
qed

subsection \<open>Properties of the operations\<close>













subsection \<open>Programs that use the heap\<close>

text \<open>
  A program that uses the heap as it is meant to be used: it knows the addresses and sizes
  that it was given (the set \<open>C\<close>), frees only these, and writes only into them.
\<close>

inductive heap_step :: "'a heap_scheme \<times> (nat \<times> nat) set \<Rightarrow> 'a heap_scheme \<times> (nat \<times> nat) set \<Rightarrow> bool" where
  request: "0 < n \<Longrightarrow> n < KMALLOC_LIMIT \<Longrightarrow> kmalloc (of_nat n) s = Some (r, s') \<Longrightarrow>
    heap_step (s, C) (s', if r = NULL then C else insert (unat r, n) C)"
| release: "(a, n) \<in> C \<Longrightarrow> small_heap s \<Longrightarrow> free (of_nat a) s = Some s' \<Longrightarrow> heap_step (s, C) (s', C - {(a, n)})"
| store: "(a, n) \<in> C \<Longrightarrow> a \<le> y \<Longrightarrow> y < a + n \<Longrightarrow> heap_step (s, C) (s\<lparr>mem := (mem s)(of_nat y := v)\<rparr>, C)"

inductive_cases heap_stepE: "heap_step c c'"

text \<open>The program's blocks are those that the allocator regards as in use, one for one.\<close>

definition holds_blocks :: "(nat \<times> nat) set \<Rightarrow> (nat \<times> nat) set \<Rightarrow> bool" where
  "holds_blocks C U \<longleftrightarrow> inj_on fst C \<and> fst ` C = fst ` U \<and> (\<forall>(a, n) \<in> C. 0 < n \<and> (\<exists>m. n \<le> m \<and> (a, m) \<in> U))"

lemma live_disjoint: "live s U \<Longrightarrow> (a, m) \<in> U \<Longrightarrow> (b, k) \<in> U \<Longrightarrow> a \<noteq> b \<Longrightarrow> a + m \<le> b \<or> b + k \<le> a"
  unfolding live_def using used_disjoint by blast

lemma live_unique:
  assumes "live s U" and "(a, m) \<in> U" and "(a, k) \<in> U"
  shows "m = k"
proof -
  obtain bs where "(a, m) \<in> used HEAP_BASE bs" "(a, k) \<in> used HEAP_BASE bs" using assms by (auto simp: live_def)
  then obtain pre post pre' post' where "bs = pre @ (m, False) # post" "a = HEAP_BASE + span pre + 16"
    "bs = pre' @ (k, False) # post'" "a = HEAP_BASE + span pre' + 16"
    using used_split by metis
  then show ?thesis using span_position [of pre "(m, False)" post pre' "(k, False)" post'] by simp
qed

lemma holds_insert:
  assumes "holds_blocks C U" and "apart a m U" and "0 < n" and "n \<le> m" and "\<And>c l. (c, l) \<in> U \<Longrightarrow> 0 < l"
  shows "holds_blocks (insert (a, n) C) (insert (a, m) U)"
proof -
  have "a \<notin> fst ` U" using assms(2-5) by (fastforce simp: apart_def)
  then show ?thesis using assms by (auto simp: holds_blocks_def)
qed

lemma holds_remove:
  assumes "holds_blocks C U" and "(a, n) \<in> C" and "(a, m) \<in> U" and "\<And>k. (a, k) \<in> U \<Longrightarrow> k = m"
  shows "holds_blocks (C - {(a, n)}) (U - {(a, m)})"
proof -
  have inj: "(a, k) \<in> C \<Longrightarrow> k = n" for k using assms(1,2) by (force simp: holds_blocks_def inj_on_def)
  have "fst ` (C - {(a, n)}) = fst ` C - {a}" using inj by force
  moreover have "fst ` (U - {(a, m)}) = fst ` U - {a}" using assms(4) by force
  moreover have "inj_on fst (C - {(a, n)})" using assms(1) by (auto simp: holds_blocks_def intro: inj_on_diff)
  moreover have "\<exists>k. l \<le> k \<and> (b, k) \<in> U - {(a, m)}" if "(b, l) \<in> C - {(a, n)}" for b l
    using that assms(1) inj unfolding holds_blocks_def by fast
  ultimately show ?thesis using assms(1) unfolding holds_blocks_def by auto
qed

lemma heap_step_live:
  assumes "heap_step c c'" and "live (fst c) U" and "holds_blocks (snd c) U"
  shows "\<exists>U'. live (fst c') U' \<and> holds_blocks (snd c') U'"
  using assms
proof (induction rule: heap_step.induct)
  case (request n s r s' C)
  show ?case
  proof (cases "r = NULL")
    case True
    then show ?thesis using kheap.alloc_law [of s U n] request by auto
  next
    case False
    then obtain a m where a: "r = of_nat a" "n \<le> m" "live s' (insert (a, m) U)" "apart a m U"
      using kheap.alloc_law [of s U n] request by auto
    have "unat r = a" using a(1) kheap.bounded [OF a(3), of a m] by (simp add: unat_of_nat_32)
    then show ?thesis using holds_insert [of C U a m n] kheap.nonempty [of s U] a request False by auto
  qed
next
  case (release a n C s s')
  then obtain m where m: "(a, m) \<in> U" by (auto simp: holds_blocks_def)
  have "holds_blocks (C - {(a, n)}) (U - {(a, m)})"
    using holds_remove [OF _ release(1) m] live_unique [OF _ m] release by auto
  then show ?case using kheap.dealloc_law [of s U a m] m release by auto
next
  case (store a n C y s v)
  then obtain m where m: "(a, m) \<in> U" "n \<le> m" by (auto simp: holds_blocks_def)
  have "live (put_mem ((mem s)(of_nat y := v)) s) U"
  proof (rule kheap.write_law)
    show "live s U" "(a, m) \<in> U" using store m by simp_all
    fix z assume "z < 4294967296" "z < a \<or> a + m \<le> z"
    moreover have "a + m < 4294967296" using kheap.bounded store m by auto
    ultimately show "((mem s)(of_nat y := v)) (of_nat z) = mem s (of_nat z)"
      using of_nat_eq_32 [of z y] store m by auto
  qed
  then show ?case using store by (auto simp: put_mem_def)
qed

lemma heap_run_live:
  assumes "heap_step\<^sup>*\<^sup>* c c'" and "live (fst c) {}" and "snd c = {}"
  shows "\<exists>U. live (fst c') U \<and> holds_blocks (snd c') U"
  using assms(1)
proof (induction rule: rtranclp_induct)
  case base
  then show ?case using assms(2,3) by (auto simp: holds_blocks_def)
next
  case (step c1 c2)
  then show ?case using heap_step_live by blast
qed



end
