(* ===== verification/Serial.thy ===== *)
theory Serial
  imports Uart
begin

text \<open>
  The polling driver of the serial port (\<^verbatim>\<open>src/serial_port.c\<close>). Its two busy-wait loops
  read the line status register until a bit is set; a wait that never ends is \<^const>\<open>None\<close>.
  What both have in common is the locale \<open>busy_wait\<close>.
\<close>

subsection \<open>Operations\<close>

definition is_transmit_empty :: "device \<Rightarrow> 'a machine_scheme \<Rightarrow> u8 \<times> 'a machine_scheme" where
  "is_transmit_empty dev s = (let (r, s) = inb dev (SERIAL_PORT + 5) s in (r AND 0x20, s))"

definition serial_received :: "device \<Rightarrow> 'a machine_scheme \<Rightarrow> u8 \<times> 'a machine_scheme" where
  "serial_received dev s = (let (r, s) = inb dev (SERIAL_PORT + 5) s in (r AND 1, s))"

definition init_serial :: "'a machine_scheme \<Rightarrow> 'a machine_scheme" where
  "init_serial s =
     (let s = outb (SERIAL_PORT + 3) 0x80 s;
          s = outb (SERIAL_PORT + 0) 0x03 s;
          s = outb (SERIAL_PORT + 1) 0x00 s
      in outb (SERIAL_PORT + 3) 0x03 s)"

partial_function (option) wait_transmit :: "device \<Rightarrow> 'a machine_scheme \<Rightarrow> 'a machine_scheme option" where
  "wait_transmit dev s =
     (case is_transmit_empty dev s of (r, s) \<Rightarrow> if r = 0 then wait_transmit dev s else Some s)"

partial_function (option) wait_received :: "device \<Rightarrow> 'a machine_scheme \<Rightarrow> 'a machine_scheme option" where
  "wait_received dev s =
     (case serial_received dev s of (r, s) \<Rightarrow> if r = 0 then wait_received dev s else Some s)"

definition write_serial :: "device \<Rightarrow> u8 \<Rightarrow> 'a machine_scheme \<Rightarrow> 'a machine_scheme option" where
  "write_serial dev c s = do { s \<leftarrow> wait_transmit dev s; Some (outb SERIAL_PORT c s) }"

definition read_serial :: "device \<Rightarrow> 'a machine_scheme \<Rightarrow> (u8 \<times> 'a machine_scheme) option" where
  "read_serial dev s = do { s \<leftarrow> wait_received dev s; Some (inb dev SERIAL_PORT s) }"

fun printk_on_serial_port :: "device \<Rightarrow> string \<Rightarrow> 'a machine_scheme \<Rightarrow> 'a machine_scheme option" where
  "printk_on_serial_port dev [] s = Some s"
| "printk_on_serial_port dev (c # cs) s =
     (if c \<noteq> NUL
      then do { s \<leftarrow> write_serial dev (of_char c) s; printk_on_serial_port dev cs s }
      else Some s)"

subsection \<open>Busy waiting\<close>

text \<open>The trace after \<open>k\<close> reads of a port, and whether the next read has the bit set.\<close>

fun polls :: "device \<Rightarrow> u16 \<Rightarrow> nat \<Rightarrow> io_event list \<Rightarrow> io_event list" where
  "polls dev p 0 t = t"
| "polls dev p (Suc k) t = polls dev p k (t @ [In p (dev t p)])"

definition ready_at :: "device \<Rightarrow> u16 \<Rightarrow> u8 \<Rightarrow> io_event list \<Rightarrow> nat \<Rightarrow> bool" where
  "ready_at dev p bits t k \<longleftrightarrow> dev (polls dev p k t) p AND bits \<noteq> 0"

lemma polls_prefix: "\<exists>l. polls dev p k t = t @ map (In p) l \<and> length l = k"
proof (induction k arbitrary: t)
  case (Suc k)
  obtain l where "polls dev p k (t @ [In p (dev t p)]) = (t @ [In p (dev t p)]) @ map (In p) l" "length l = k" using Suc by blast
  then show ?case by (intro exI [of _ "dev t p # l"]) simp
qed simp

lemma outs_to_polls [simp]: "outs_to q (polls dev p k t) = outs_to q t"
proof -
  obtain l where "polls dev p k t = t @ map (In p) l" using polls_prefix by blast
  moreover have "outs_to q (map (In p) l) = []" by (induction l) auto
  ultimately show ?thesis by simp
qed

locale busy_wait =
  fixes wait :: "device \<Rightarrow> 'a machine_scheme \<Rightarrow> 'a machine_scheme option" and port :: u16 and bits :: u8
  assumes unfold_wait: "wait dev s =
    (case inb dev port s of (r, s') \<Rightarrow> if r AND bits = 0 then wait dev s' else Some s')"
begin

lemma returns:
  assumes "ready_at dev port bits (trace s) k" and "\<And>j. j < k \<Longrightarrow> \<not> ready_at dev port bits (trace s) j"
  shows "wait dev s = Some (s\<lparr>trace := polls dev port (Suc k) (trace s)\<rparr>)"
  using assms
proof (induction k arbitrary: s)
  case 0
  then show ?case by (subst unfold_wait) (simp add: inb_def ready_at_def Let_def)
next
  case (Suc k)
  let ?s = "s\<lparr>trace := trace s @ [In port (dev (trace s) port)]\<rparr>"
  have not: "dev (trace s) port AND bits = 0" using Suc.prems(2) [of 0] by (simp add: ready_at_def)
  have "ready_at dev port bits (trace ?s) k" using Suc.prems(1) by (simp add: ready_at_def)
  moreover have "\<not> ready_at dev port bits (trace ?s) j" if "j < k" for j
    using Suc.prems(2) [of "Suc j"] that by (simp add: ready_at_def)
  ultimately have "wait dev ?s = Some (?s\<lparr>trace := polls dev port (Suc k) (trace ?s)\<rparr>)" by (rule Suc.IH)
  then show ?case by (subst unfold_wait) (simp add: inb_def not Let_def)
qed

lemma eventually:
  assumes "\<exists>k. ready_at dev port bits (trace s) k"
  obtains k where "ready_at dev port bits (trace s) k" "\<And>j. j < k \<Longrightarrow> \<not> ready_at dev port bits (trace s) j"
    "wait dev s = Some (s\<lparr>trace := polls dev port (Suc k) (trace s)\<rparr>)"
  by (metis LeastI_ex [OF assms] not_less_Least returns)

end

interpretation transmit: busy_wait wait_transmit "SERIAL_PORT + 5" "0x20"
  by unfold_locales (subst wait_transmit.simps, simp add: is_transmit_empty_def split: prod.splits)

interpretation received: busy_wait wait_received "SERIAL_PORT + 5" 1
  by unfold_locales (subst wait_received.simps, simp add: serial_received_def split: prod.splits)

text \<open>The waits do not return if the bit is never set.\<close>

lemma wait_transmit_ready:
  assumes "wait_transmit dev s = Some s'"
  shows "\<exists>k. ready_at dev (SERIAL_PORT + 5) 0x20 (trace s) k"
proof (rule wait_transmit.raw_induct [OF _ assms])
  fix wait dev and s s' :: "'a machine_scheme"
  let ?p = "SERIAL_PORT + 5"
  assume ih: "\<And>dev (s :: 'a machine_scheme) s'. wait dev s = Some s' \<Longrightarrow> \<exists>k. ready_at dev ?p 0x20 (trace s) k"
    and run: "(case is_transmit_empty dev s of (r, s) \<Rightarrow> if r = 0 then wait dev s else Some s) = Some s'"
  show "\<exists>k. ready_at dev ?p 0x20 (trace s) k"
  proof (cases "dev (trace s) ?p AND 0x20 = 0")
    case True
    then have "wait dev (s\<lparr>trace := trace s @ [In ?p (dev (trace s) ?p)]\<rparr>) = Some s'"
      using run by (simp add: is_transmit_empty_def inb_def Let_def)
    from ih [OF this] obtain k where "ready_at dev ?p 0x20 (polls dev ?p 1 (trace s)) k" by auto
    then show ?thesis by (intro exI [of _ "Suc k"]) (simp add: ready_at_def)
  next
    case False
    then show ?thesis by (intro exI [of _ 0]) (simp add: ready_at_def)
  qed
qed

text \<open>C33. \<open>write_serial\<close> returns if and only if the transmitter becomes empty at some read of the line status
  register; then it has sent exactly the one byte, after that read.\<close>

theorem write_serial_returns:
  "(write_serial dev c s \<noteq> None \<longleftrightarrow> (\<exists>k. ready_at dev (SERIAL_PORT + 5) 0x20 (trace s) k)) \<and>
   (\<forall>s'. write_serial dev c s = Some s' \<longrightarrow>
     (\<exists>k. ready_at dev (SERIAL_PORT + 5) 0x20 (trace s) k \<and>
       s' = s\<lparr>trace := polls dev (SERIAL_PORT + 5) (Suc k) (trace s) @ [Out SERIAL_PORT c]\<rparr>))"
proof (cases "\<exists>k. ready_at dev (SERIAL_PORT + 5) 0x20 (trace s) k")
  case True
  then obtain k where "ready_at dev (SERIAL_PORT + 5) 0x20 (trace s) k"
    "wait_transmit dev s = Some (s\<lparr>trace := polls dev (SERIAL_PORT + 5) (Suc k) (trace s)\<rparr>)"
    by (rule transmit.eventually)
  then show ?thesis by (auto simp: write_serial_def outb_def)
next
  case False
  then have "wait_transmit dev s = None" using wait_transmit_ready [of dev s] by fastforce
  then show ?thesis using False by (simp add: write_serial_def)
qed

lemma printk_on_serial_port_sends:
  assumes "\<And>t. \<exists>k. ready_at dev (SERIAL_PORT + 5) 0x20 t k"
  shows "\<exists>s'. printk_on_serial_port dev cs s = Some s' \<and>
    outs_to SERIAL_PORT (trace s') = outs_to SERIAL_PORT (trace s) @ map of_char (takeWhile (\<lambda>c. c \<noteq> NUL) cs) \<and> mem s' = mem s"
proof (induction cs arbitrary: s)
  case (Cons c cs)
  show ?case
  proof (cases "c = NUL")
    case False
    obtain k where "wait_transmit dev s = Some (s\<lparr>trace := polls dev (SERIAL_PORT + 5) (Suc k) (trace s)\<rparr>)"
      by (rule transmit.eventually [OF assms])
    then have "write_serial dev (of_char c) s =
        Some (s\<lparr>trace := polls dev (SERIAL_PORT + 5) (Suc k) (trace s) @ [Out SERIAL_PORT (of_char c)]\<rparr>)"
      by (simp add: write_serial_def outb_def)
    with Cons.IH [of "s\<lparr>trace := polls dev (SERIAL_PORT + 5) (Suc k) (trace s) @ [Out SERIAL_PORT (of_char c)]\<rparr>"] False
    show ?thesis by (auto simp del: polls.simps)
  qed simp
qed simp

text \<open>C34. If the transmitter always becomes empty again, \<open>printk_on_serial_port\<close> returns and has sent the bytes of
  the string up to its NUL, in order and each once.\<close>

theorem printk_on_serial_port_output:
  assumes "\<forall>t. \<exists>k. ready_at dev (SERIAL_PORT + 5) 0x20 t k"
  shows "\<exists>s'. printk_on_serial_port dev cs s = Some s' \<and>
    outs_to SERIAL_PORT (trace s') = outs_to SERIAL_PORT (trace s) @ map of_char (takeWhile (\<lambda>c. c \<noteq> NUL) cs) \<and> mem s' = mem s"
  using assms by (intro printk_on_serial_port_sends) blast

text \<open>A port that is busy at every other read.\<close>

definition slow_port :: device where
  "slow_port t p = (if even (length t) then 0 else 0x20)"

lemma slow_port_ready: "\<exists>k. ready_at slow_port (SERIAL_PORT + 5) 0x20 t k"
  by (cases "even (length t)")
    (auto simp: ready_at_def slow_port_def intro: exI [of _ 0] exI [of _ 1])

theorem write_serial_returns_witness:
  "write_serial slow_port 65 \<lparr>trace = [], mem = (\<lambda>_. 0)\<rparr> \<noteq> None"
  using write_serial_returns [of slow_port 65 "\<lparr>trace = [], mem = (\<lambda>_. 0)\<rparr>"] slow_port_ready by blast

theorem printk_on_serial_port_output_witness:
  "\<exists>s'. printk_on_serial_port slow_port ''hi'' \<lparr>trace = [], mem = (\<lambda>_. 0)\<rparr> = Some s' \<and> outs_to SERIAL_PORT (trace s') = [104, 105]"
  using printk_on_serial_port_output [of slow_port "''hi''" "\<lparr>trace = [], mem = (\<lambda>_. 0)\<rparr>"] slow_port_ready by auto

end
