(* ===== verification/Kernel.thy ===== *)
theory Kernel
  imports Drivers HeapClient Serial
begin

text \<open>
  The kernel as a whole: \<open>sleep\<close> (\<^verbatim>\<open>src/time.c\<close>), the boot code from \<open>main\<close> to the final loop
  (\<^verbatim>\<open>src/main.c\<close>, with \<open>enable_paging\<close> of \<^verbatim>\<open>src/crt0.S\<close>) and the debugging routines of
  \<^verbatim>\<open>src/test.c\<close>.

  Interrupts are explicit where the code waits for them: \<open>irqs i\<close> is the list of interrupts that
  are delivered before the \<open>i\<close>-th test of the tick counter in \<open>sleep\<close>, each by its saved
  registers. The addresses that the linker chooses are collected in a record. The final loop of
  \<open>print_hello_world\<close> does not end; the model gives the state after any number of rounds.
\<close>

record image =
  page_dir_addr :: u32
  kernel_end_addr :: u32
  gdt_vaddr :: u32
  tss_vaddr :: u32
  idt_vaddr :: u32
  isr_vaddr :: "int \<Rightarrow> u32"
  main_userland_addr :: u32

subsection \<open>sleep (src/time.c)\<close>

fun run_irqs :: "device \<Rightarrow> regs list \<Rightarrow> 'a kernel_scheme \<Rightarrow> 'a kernel_scheme outcome option" where
  "run_irqs dev [] s = Some (Returned s)"
| "run_irqs dev (r # rs) s = do {
     res \<leftarrow> irq_handler dev r s;
     case res of Returned s \<Rightarrow> run_irqs dev rs s | Halted s \<Rightarrow> Some (Halted s)
   }"

partial_function (option) sleep_loop ::
  "device \<Rightarrow> (nat \<Rightarrow> regs list) \<Rightarrow> nat \<Rightarrow> u32 \<Rightarrow> u32 \<Rightarrow> 'a kernel_scheme \<Rightarrow> 'a kernel_scheme outcome option" where
  "sleep_loop dev irqs i start duration s = do {
     res \<leftarrow> run_irqs dev (irqs i) s;
     case res of
       Halted s \<Rightarrow> Some (Halted s)
     | Returned s \<Rightarrow>
         if pit_get_ticks s - start > duration then Some (Returned s)
         else sleep_loop dev irqs (i + 1) start duration s
   }"

definition sleep :: "device \<Rightarrow> (nat \<Rightarrow> regs list) \<Rightarrow> u32 \<Rightarrow> 'a kernel_scheme \<Rightarrow> 'a kernel_scheme outcome option" where
  "sleep dev irqs duration s =
     (let start = pit_get_ticks s;
          duration = duration * 100
      in sleep_loop dev irqs 0 start duration s)"

subsection \<open>Boot (src/main.c, src/crt0.S)\<close>

definition MAGIC_NUMBER :: u32 where "MAGIC_NUMBER = 0x2BADB002"

definition enable_paging :: "image \<Rightarrow> 'a kernel_scheme \<Rightarrow> 'a kernel_scheme" where
  "enable_paging img s = s\<lparr>cr4 := cr4 s OR 0x00000010, cr3 := page_dir_addr img - 0xc0000000, cr0 := cr0 s OR 0x80000000\<rparr>"

text \<open>\<open>main\<close> ends in \<open>enable_paging\<close>, which goes on at \<open>main_new\<close> and does not return.\<close>

definition main :: "image \<Rightarrow> u32 \<Rightarrow> u32 \<Rightarrow> 'a kernel_scheme \<Rightarrow> 'a kernel_scheme" where
  "main img magic_number multiboot_info s =
     (let s = s\<lparr>kfs_magic_number := magic_number\<rparr>;
          s = s\<lparr>kfs_multiboot_info := SYSTEM_ADDR_BASE + multiboot_info\<rparr>;
          s = init_page_directory (page_dir_addr img) s
      in enable_paging img s)"

definition run_debug_test :: "'a kernel_scheme \<Rightarrow> 'a kernel_scheme" where
  "run_debug_test s = s"

text \<open>The search for the \<open>ret\<close> instruction reads the bytes of the code.\<close>

partial_function (option) find_ret :: "u32 \<Rightarrow> 'a kernel_scheme \<Rightarrow> u32 option" where
  "find_ret func_end s = (if mem s func_end \<noteq> 0xC3 then find_ret (func_end + 1) s else Some func_end)"

definition prepare_userland :: "image \<Rightarrow> 'a kernel_scheme \<Rightarrow> 'a kernel_scheme option" where
  "prepare_userland img s =
     (let func_start = main_userland_addr img
      in do {
        func_end \<leftarrow> find_ret func_start s;
        let func_size = func_end - func_start + 1;
        (_, s) \<leftarrow> kprintf (''func_start: %p => %p [%d]'' @ [CHR 0x0A]) [VInt func_start, VInt func_end, VInt func_size] s;
        Some s
      })"

fun hello_rounds :: "device \<Rightarrow> (nat \<Rightarrow> nat \<Rightarrow> regs list) \<Rightarrow> nat \<Rightarrow> 'a kernel_scheme \<Rightarrow> 'a kernel_scheme outcome option" where
  "hello_rounds dev irqs 0 s = Some (Returned s)"
| "hello_rounds dev irqs (Suc n) s = do {
     res \<leftarrow> sleep dev (irqs 0) 1 (printk (''hello world !'' @ [CHR 0x0A]) s);
     case res of Returned s \<Rightarrow> hello_rounds dev (\<lambda>i. irqs (Suc i)) n s | Halted s \<Rightarrow> Some (Halted s)
   }"

definition print_hello_world ::
  "device \<Rightarrow> (nat \<Rightarrow> nat \<Rightarrow> regs list) \<Rightarrow> nat \<Rightarrow> 'a kernel_scheme \<Rightarrow> 'a kernel_scheme outcome option" where
  "print_hello_world dev irqs rounds s = hello_rounds dev irqs rounds (printk [CHR 0x0A] s)"

text \<open>The result: \<open>main_new\<close> returned (bad magic number), the kernel spins, or it is in its final loop.\<close>

datatype 's boot = Boot_returned 's | Boot_halted 's | Boot_running 's

definition start_devices :: "device \<Rightarrow> image \<Rightarrow> u32 \<Rightarrow> 'a kernel_scheme \<Rightarrow> 'a kernel_scheme option" where
  "start_devices dev img stack s =
     do {
       s \<leftarrow> init_flat_gdt (gdt_vaddr img) (tss_vaddr img) stack s;
       let s = irq_init dev PICS_BASE s;
       s \<leftarrow> kb_init dev s;
       s \<leftarrow> pit_init dev 100 s;
       s \<leftarrow> uart_init dev SERIAL_PORT s;
       let s = (if \<not> uart_is_init s then printk ''uart_init failed.'' s else s);
       interrupts_init (idt_vaddr img) (isr_vaddr img) s
     }"

definition run_kernel ::
  "device \<Rightarrow> image \<Rightarrow> (nat \<Rightarrow> nat \<Rightarrow> regs list) \<Rightarrow> nat \<Rightarrow> 'a kernel_scheme \<Rightarrow> 'a kernel_scheme boot option" where
  "run_kernel dev img irqs rounds s =
     do {
       s \<leftarrow> prepare_userland img s;
       res \<leftarrow> print_hello_world dev irqs rounds s;
       case res of Halted s \<Rightarrow> Some (Boot_halted s) | Returned s \<Rightarrow> Some (Boot_running s)
     }"

definition main_new ::
  "device \<Rightarrow> image \<Rightarrow> u32 \<Rightarrow> (nat \<Rightarrow> nat \<Rightarrow> regs list) \<Rightarrow> nat \<Rightarrow> 'a kernel_scheme \<Rightarrow> 'a kernel_scheme boot option" where
  "main_new dev img stack irqs rounds s =
     do {
       s \<leftarrow> finalize_pagination (page_dir_addr img) s;
       if kfs_magic_number s \<noteq> MAGIC_NUMBER then Some (Boot_returned (printk ''Invalid magic number'' s))
       else do {
         s \<leftarrow> start_devices dev img stack s;
         let s = init_page_tables s;
         s \<leftarrow> init_frame_alloc (page_dir_addr img) (kernel_end_addr img) (kfs_multiboot_info s) s;
         let s = run_debug_test s;
         res \<leftarrow> sleep dev (irqs 0) 1 s;
         case res of
           Halted s \<Rightarrow> Some (Boot_halted s)
         | Returned s \<Rightarrow> run_kernel dev img (\<lambda>i. irqs (Suc i)) rounds s
       }
     }"

subsection \<open>Debugging routines (src/test.c)\<close>

definition kprintf1 :: "string \<Rightarrow> u32 \<Rightarrow> 'a console_scheme \<Rightarrow> 'a console_scheme option" where
  "kprintf1 fmt v s = map_option snd (kprintf fmt [VInt v] s)"

definition test_kmalloc_sbrk :: "'a heap_scheme \<Rightarrow> 'a heap_scheme option" where
  "test_kmalloc_sbrk s = do {
     (buffer, s) \<leftarrow> kmalloc 100 s;
     s \<leftarrow> kprintf1 (''buffer => %p'' @ [CHR 0x0A]) buffer s;
     (brk, s) \<leftarrow> sbrk 0 s;
     s \<leftarrow> kprintf1 (''kds => %p'' @ [CHR 0x0A]) brk s;
     s \<leftarrow> free buffer s;
     (brk, s) \<leftarrow> sbrk 0 s;
     kprintf1 (''kds => %p'' @ [CHR 0x0A]) brk s
   }"

partial_function (option) alloc_all_loop :: "u32 \<Rightarrow> u32 \<Rightarrow> 'a heap_scheme \<Rightarrow> 'a heap_scheme option" where
  "alloc_all_loop bytes_per_alloc i s = do {
     (buffer2, s) \<leftarrow> kmalloc bytes_per_alloc s;
     if buffer2 \<noteq> NULL then alloc_all_loop bytes_per_alloc (i + bytes_per_alloc) s
     else do {
       (_, s) \<leftarrow> kprintf (''kmalloc failed after %B allocation. (%X)'' @ [CHR 0x0A]) [VInt i, VInt (i * bytes_per_alloc)] s;
       Some s
     }
   }"

definition test_alloc_all_memory :: "'a heap_scheme \<Rightarrow> 'a heap_scheme option" where
  "test_alloc_all_memory s =
     (let bytes_per_alloc = push_bit 20 10
      in do {
        s \<leftarrow> kprintf1 (''test_alloc_all_memory: %B'' @ [CHR 0x0A]) bytes_per_alloc s;
        s \<leftarrow> alloc_all_loop bytes_per_alloc 0 s;
        (brk, s) \<leftarrow> sbrk 0 s;
        kprintf1 (''kds => %p'' @ [CHR 0x0A]) brk s
      })"

text \<open>If no frames are free, \<open>frame\<close> stays \<open>NULL\<close> and the mapping is done from there.\<close>

definition test_alloc_frames :: "'a heap_scheme \<Rightarrow> 'a heap_scheme option" where
  "test_alloc_frames s = do {
     s \<leftarrow> kprintf1 (''frame => %p'' @ [CHR 0x0A]) NULL s;
     let (_, fr, s) = alloc_frames 2 s;
     let frame = (case fr of None \<Rightarrow> NULL | Some f \<Rightarrow> f);
     s \<leftarrow> kprintf1 (''frame => %p'' @ [CHR 0x0A]) frame s;
     (_, s) \<leftarrow> map_pages (get_kpd_frame s) (frames_meta_end_vaddr (get_frames_context s)) frame 2 (PF_PRES OR PF_RW) s;
     let s = st 0xC0801ffc 42 s;
     kprintf1 (''value => %p'' @ [CHR 0x0A]) (ld 0xC0801ffc s) s
   }"

function dump_row_loop :: "u32 \<Rightarrow> int \<Rightarrow> int \<Rightarrow> 'a heap_scheme \<Rightarrow> 'a heap_scheme option" where
  "dump_row_loop video_mem y x s =
     (if x < 80
      then do {
        s \<leftarrow> kprintf1 ''%c'' (word_of_int (sint (mem s (video_mem + of_int ((y * 80 + x) * 2))))) s;
        dump_row_loop video_mem y (x + 1) s
      }
      else Some s)"
  by pat_completeness auto
termination
  by (relation "measure (\<lambda>(_, _, x, _). nat (80 - x))") auto

declare dump_row_loop.simps [simp del]

function dump_screen_loop :: "u32 \<Rightarrow> int \<Rightarrow> 'a heap_scheme \<Rightarrow> 'a heap_scheme option" where
  "dump_screen_loop video_mem y s =
     (if y < 25
      then do {
        s \<leftarrow> dump_row_loop video_mem y 0 s;
        (_, s) \<leftarrow> kprintf [CHR 0x0A] [] s;
        dump_screen_loop video_mem (y + 1) s
      }
      else Some s)"
  by pat_completeness auto
termination
  by (relation "measure (\<lambda>(_, y, _). nat (25 - y))") auto

declare dump_screen_loop.simps [simp del]

definition test_dump_screen :: "u32 \<Rightarrow> 'a heap_scheme \<Rightarrow> 'a heap_scheme option" where
  "test_dump_screen lframe s = do {
     (video_mem, s) \<leftarrow> map_io (get_kpd_frame s) 0xB8000 (80 * 25 * 2) lframe s;
     s \<leftarrow> kprintf1 (''videomem %p'' @ [CHR 0x0A]) video_mem s;
     dump_screen_loop video_mem 0 s
   }"

end
