(* ===== verification/KernelProps.thy ===== *)
theory KernelProps
  imports Kernel
begin

text \<open>
  What \<open>sleep\<close> does under arbitrary interrupts from the devices.
\<close>

subsection \<open>Sleeping\<close>

definition timer_count :: "regs list \<Rightarrow> nat" where
  "timer_count rs = length (filter (\<lambda>r. int_no r = 32) rs)"

definition device_irqs :: "regs list \<Rightarrow> bool" where
  "device_irqs rs \<longleftrightarrow> (\<forall>r \<in> set rs. int_no r \<in> device_vectors)"

text \<open>The effect of interrupts from the devices, \<open>k\<close> of them from the timer.\<close>

definition irq_effect :: "nat \<Rightarrow> 'a kernel_scheme \<Rightarrow> 'a kernel_scheme \<Rightarrow> bool" where
  "irq_effect k s s' \<longleftrightarrow> (\<exists>t m b. s' = s\<lparr>trace := trace s @ t, mem := m, ticks := ticks s + of_nat k, send_char := b\<rparr>) \<and> screen_only s s'"

lemma irq_effect_refl [simp]: "irq_effect 0 s s"
  unfolding irq_effect_def by (auto intro!: exI [of _ "[]"] exI [of _ "mem s"] exI [of _ "send_char s"])

lemma irq_effect_trans [trans]:
  assumes "irq_effect j s t" and "irq_effect k t u"
  shows "irq_effect (j + k) s u"
proof -
  from assms obtain t1 m1 b1 t2 m2 b2 where "t = s\<lparr>trace := trace s @ t1, mem := m1, ticks := ticks s + of_nat j, send_char := b1\<rparr>"
    "u = t\<lparr>trace := trace t @ t2, mem := m2, ticks := ticks t + of_nat k, send_char := b2\<rparr>"
    by (auto simp: irq_effect_def)
  then have "u = s\<lparr>trace := trace s @ (t1 @ t2), mem := m2, ticks := ticks s + of_nat (j + k), send_char := b2\<rparr>"
    by (simp add: add_ac)
  then show ?thesis using assms screen_only_trans unfolding irq_effect_def by blast
qed

lemma irq_effect_wired: "irq_effect k s s' \<Longrightarrow> wired s' = wired s"
  by (auto simp: irq_effect_def wired_def)

lemma run_irqs_devices:
  "wired s \<Longrightarrow> device_irqs rs \<Longrightarrow> \<exists>s'. run_irqs dev rs s = Some (Returned s') \<and> irq_effect (timer_count rs) s s'"
proof (induction rs arbitrary: s)
  case (Cons r rs)
  have r: "int_no r \<in> device_vectors" and rs: "device_irqs rs" using Cons.prems(2) by (simp_all add: device_irqs_def)
  obtain t m b where step: "irq_handler dev r s = Some (Returned (s\<lparr>trace := trace s @ t @ eoi_events, mem := m,
      ticks := ticks s + (if int_no r = 32 then 1 else 0), send_char := b\<rparr>))" "screen_only s (s\<lparr>mem := m\<rparr>)"
    by (rule irq_device_step [OF Cons.prems(1) r])
  define s1 where "s1 = s\<lparr>trace := trace s @ t @ eoi_events, mem := m, ticks := ticks s + (if int_no r = 32 then 1 else 0), send_char := b\<rparr>"
  have "s1 = s\<lparr>trace := trace s @ (t @ eoi_events), mem := m, ticks := ticks s + of_nat (timer_count [r]), send_char := b\<rparr>"
    by (simp add: s1_def timer_count_def)
  moreover have "screen_only s s1" using step(2) by (simp add: s1_def screen_only_def)
  ultimately have eff: "irq_effect (timer_count [r]) s s1" unfolding irq_effect_def by blast
  obtain s' where "run_irqs dev rs s1 = Some (Returned s')" "irq_effect (timer_count rs) s1 s'"
    using Cons.IH [OF _ rs] irq_effect_wired [OF eff] Cons.prems(1) by blast
  moreover have "timer_count (r # rs) = timer_count [r] + timer_count rs" by (simp add: timer_count_def)
  ultimately show ?case using step(1) irq_effect_trans [OF eff] by (simp add: s1_def)
qed (simp add: timer_count_def)

text \<open>The timer interrupts up to and including those before the \<open>i\<close>-th test.\<close>

definition ticks_upto :: "(nat \<Rightarrow> regs list) \<Rightarrow> nat \<Rightarrow> nat" where
  "ticks_upto irqs i = (\<Sum>j \<le> i. timer_count (irqs j))"

lemma sleep_loop_returns:
  assumes "wired s" and "\<And>j. device_irqs (irqs j)" and "ticks s = start + of_nat c"
    and "d < of_nat (c + (\<Sum>j = i..k. timer_count (irqs j)))" and "i \<le> k"
    and "\<And>l. i \<le> l \<Longrightarrow> l < k \<Longrightarrow> of_nat (c + (\<Sum>j = i..l. timer_count (irqs j))) \<le> d"
  shows "\<exists>s'. sleep_loop dev irqs i start d s = Some (Returned s') \<and> irq_effect (\<Sum>j = i..k. timer_count (irqs j)) s s'"
  using assms
proof (induction "k - i" arbitrary: i s c)
  case 0
  obtain s' where s': "run_irqs dev (irqs i) s = Some (Returned s')" "irq_effect (timer_count (irqs i)) s s'"
    using run_irqs_devices [OF 0(2,3)] by blast
  have "i = k" using 0 by simp
  moreover have "ticks s' - start = of_nat (c + timer_count (irqs i))" using s'(2) 0(4) by (auto simp: irq_effect_def)
  ultimately show ?case using s' 0(5) by (subst sleep_loop.simps) (simp add: pit_get_ticks_def)
next
  case (Suc n)
  then have i: "i < k" "n = k - Suc i" "Suc i \<le> k" by auto
  obtain s1 where s1: "run_irqs dev (irqs i) s = Some (Returned s1)" "irq_effect (timer_count (irqs i)) s s1"
    using run_irqs_devices [OF Suc.prems(1,2)] by blast
  let ?c = "c + timer_count (irqs i)"
  have t: "ticks s1 = start + of_nat ?c" using s1(2) Suc.prems(3) by (auto simp: irq_effect_def)
  then have diff: "ticks s1 - start = of_nat ?c" by simp
  have "(of_nat ?c :: u32) \<le> d" using Suc.prems(6) [of i] i by simp
  then have no: "\<not> d < ticks s1 - start" unfolding diff by simp
  have split: "c + (\<Sum>j = i..l. timer_count (irqs j)) = ?c + (\<Sum>j = Suc i..l. timer_count (irqs j))" if "i \<le> l" for l
    using that by (simp add: sum.atLeast_Suc_atMost)
  obtain s' where "sleep_loop dev irqs (Suc i) start d s1 = Some (Returned s')"
    "irq_effect (\<Sum>j = Suc i..k. timer_count (irqs j)) s1 s'"
    using Suc.hyps(1) [OF i(2) _ Suc.prems(2) t _ i(3)] Suc.prems(1,4,6) irq_effect_wired [OF s1(2)] split i(1)
    by (metis Suc_leD less_imp_le)
  moreover have "(\<Sum>j = i..k. timer_count (irqs j)) = timer_count (irqs i) + (\<Sum>j = Suc i..k. timer_count (irqs j))"
    using split [of k] i(1) by simp
  ultimately show ?case using s1 no irq_effect_trans [OF s1(2)]
    by (subst sleep_loop.simps) (simp add: pit_get_ticks_def)
qed

lemma sleep_wakes:
  assumes "wired s" and "\<And>j. device_irqs (irqs j)" and "duration * 100 < of_nat (ticks_upto irqs k)"
    and "\<And>l. l < k \<Longrightarrow> of_nat (ticks_upto irqs l) \<le> duration * 100"
  shows "\<exists>s'. sleep dev irqs duration s = Some (Returned s') \<and> irq_effect (ticks_upto irqs k) s s'"
  using sleep_loop_returns [of s irqs "ticks s" 0 "duration * 100" 0 k dev] assms
  by (simp add: sleep_def pit_get_ticks_def ticks_upto_def atLeast0AtMost)

lemma sleep_wakes_eventually:
  assumes "wired s" and "\<And>j. device_irqs (irqs j)" and "\<exists>k. duration * 100 < of_nat (ticks_upto irqs k)"
  obtains k s' where "sleep dev irqs duration s = Some (Returned s')" "irq_effect (ticks_upto irqs k) s s'"
    "duration * 100 < of_nat (ticks_upto irqs k)" "\<And>l. l < k \<Longrightarrow> of_nat (ticks_upto irqs l) \<le> duration * 100"
proof -
  define k where "k = (LEAST k. duration * 100 < of_nat (ticks_upto irqs k))"
  have k: "duration * 100 < of_nat (ticks_upto irqs k)" unfolding k_def by (rule LeastI_ex [OF assms(3)])
  have l: "of_nat (ticks_upto irqs l) \<le> duration * 100" if "l < k" for l
    using not_less_Least that unfolding k_def by (metis not_less)
  from sleep_wakes [OF assms(1,2) k l, of dev] k l that show ?thesis by blast
qed

text \<open>C22. If only the devices interrupt it and the tick counter at some test is more than \<open>100 * duration\<close> (modulo
  \<open>2 ^ 32\<close>) past its start, \<open>sleep\<close> returns, at the first such test: at least \<open>100 * duration + 1\<close> timer
  interrupts after its call if the product does not wrap. Memory outside the screen is untouched.\<close>

theorem sleep_returns:
  assumes "wired s" and "\<forall>j. device_irqs (irqs j)" and "\<exists>k. duration * 100 < of_nat (ticks_upto irqs k)"
  shows "\<exists>k s'. sleep dev irqs duration s = Some (Returned s') \<and> ticks s' = ticks s + of_nat (ticks_upto irqs k) \<and>
    (\<forall>l < k. of_nat (ticks_upto irqs l) \<le> duration * 100) \<and> unat (duration * 100) < ticks_upto irqs k \<and>
    wired s' \<and> screen_only s s'"
proof -
  obtain k s' where s': "sleep dev irqs duration s = Some (Returned s')" "irq_effect (ticks_upto irqs k) s s'"
    "duration * 100 < of_nat (ticks_upto irqs k)" "\<And>l. l < k \<Longrightarrow> of_nat (ticks_upto irqs l) \<le> duration * 100"
    using sleep_wakes_eventually [OF assms(1) _ assms(3), of dev] assms(2) by metis
  have "unat (duration * 100) < unat (of_nat (ticks_upto irqs k) :: u32)" using s'(3) by (simp add: word_less_nat_alt)
  also have "\<dots> \<le> ticks_upto irqs k" by (simp add: unat_of_nat)
  finally show ?thesis using s' irq_effect_wired [OF s'(2)] assms(1)
    by (intro exI [of _ k] exI [of _ s']) (auto simp: irq_effect_def)
qed

end
