(* ===== verification/BootProps.thy ===== *)
theory BootProps
  imports KernelProps
begin

text \<open>
  The composition of the boot steps: the search of the boot loader's memory map, the start of
  the devices, and \<open>main_new\<close> from the hand-over to the final loop.
\<close>

subsection \<open>The memory map\<close>

definition map_entry_at :: "u32 \<Rightarrow> nat \<Rightarrow> u32" where
  "map_entry_at mmaps k = mmaps + of_nat k * 24"

definition find_ram :: "u32 \<Rightarrow> 'a machine_scheme \<Rightarrow> nat list \<Rightarrow> u32 \<Rightarrow> u32" where
  "find_ram mmaps s ks ram = foldl (\<lambda>r k. if mmap_base_addr_low (map_entry_at mmaps k) s = RAM_BASE_ADDR
     then map_entry_at mmaps k else r) ram ks"

lemma printed_mem: "printed s s' \<Longrightarrow> mem s' = mem s"
  by (auto simp: printed_def)

lemma mmap_reads:
  assumes "mem s' = mem s"
  shows "mmap_base_addr_low p s' = mmap_base_addr_low p s" "mmap_length_low p s' = mmap_length_low p s" "mmap_type p s' = mmap_type p s"
  using assms by (simp_all add: mmap_base_addr_low_def mmap_length_low_def mmap_type_def ld_def)

lemma find_ram_loop_spec:
  assumes "c \<le> n" and "n < 4294967296" and "\<And>k. k < n \<Longrightarrow> sint (mmap_type (map_entry_at mmaps k) s) \<noteq> INT_MIN"
  shows "\<exists>s'. find_ram_loop mmaps (of_nat n) (of_nat c) ram s = Some (find_ram mmaps s [c..<n] ram, s') \<and> printed s s'"
  using assms
proof (induction "n - c" arbitrary: c ram s)
  case 0
  then show ?case by (subst find_ram_loop.simps) (simp add: find_ram_def)
next
  case (Suc d)
  then have c: "c < n" "d = n - Suc c" "Suc c \<le> n" by auto
  let ?e = "map_entry_at mmaps c"
  have lt: "(of_nat c :: u32) < of_nat n" using of_nat_less_32 [of c n] c(1) Suc.prems(2) by simp
  have "render ([CHR 0x09] @ ''Memory found at %p->%p of size %B %x b (%d)'' @ [CHR 0x0A])
            [VInt (mmap_base_addr_low ?e s), VInt (mmap_base_addr_low ?e s + mmap_length_low ?e s),
             VInt (mmap_length_low ?e s), VInt (mmap_length_low ?e s), VInt (mmap_type ?e s)] \<noteq> None"
    using Suc.prems(3) [OF c(1)] by (simp add: render_simps)
  then obtain r s1 where s1: "kprintf ([CHR 0x09] @ ''Memory found at %p->%p of size %B %x b (%d)'' @ [CHR 0x0A])
            [VInt (mmap_base_addr_low ?e s), VInt (mmap_base_addr_low ?e s + mmap_length_low ?e s),
             VInt (mmap_length_low ?e s), VInt (mmap_length_low ?e s), VInt (mmap_type ?e s)] s = Some (r, s1)" "printed s s1"
    by (rule kprintf_printed)
  note same = mmap_reads [OF printed_mem [OF s1(2)]]
  let ?ram = "if mmap_base_addr_low ?e s = RAM_BASE_ADDR then ?e else ram"
  obtain s' where s': "find_ram_loop mmaps (of_nat n) (of_nat (Suc c)) ?ram s1 = Some (find_ram mmaps s1 [Suc c..<n] ?ram, s')" "printed s1 s'"
    using Suc.hyps(1) [OF c(2,3) Suc.prems(2), of s1 ?ram] Suc.prems(3) same by auto
  have "find_ram mmaps s1 [Suc c..<n] ?ram = find_ram mmaps s [c..<n] ram"
    using c(1) by (simp add: find_ram_def same upt_conv_Cons)
  moreover have "find_ram_loop mmaps (of_nat n) (of_nat c) ram s = find_ram_loop mmaps (of_nat n) (of_nat (Suc c)) ?ram s1"
    using lt s1(1) by (subst find_ram_loop.simps) (simp add: map_entry_at_def same Let_def add.commute)
  ultimately show ?case using s' printed_trans [OF s1(2)] by auto
qed

lemma find_ram_cases:
  "find_ram mmaps s ks ram = ram \<and> (\<forall>k \<in> set ks. mmap_base_addr_low (map_entry_at mmaps k) s \<noteq> RAM_BASE_ADDR) \<or>
   (\<exists>pre k post. ks = pre @ k # post \<and> mmap_base_addr_low (map_entry_at mmaps k) s = RAM_BASE_ADDR \<and>
     (\<forall>j \<in> set post. mmap_base_addr_low (map_entry_at mmaps j) s \<noteq> RAM_BASE_ADDR) \<and> find_ram mmaps s ks ram = map_entry_at mmaps k)"
proof (induction ks rule: rev_induct)
  case (snoc x ks)
  show ?case
  proof (cases "mmap_base_addr_low (map_entry_at mmaps x) s = RAM_BASE_ADDR")
    case True
    then show ?thesis by (intro disjI2 exI [of _ ks] exI [of _ x] exI [of _ "[]"]) (simp add: find_ram_def)
  next
    case False
    then have eq: "find_ram mmaps s (ks @ [x]) ram = find_ram mmaps s ks ram" by (simp add: find_ram_def)
    from snoc show ?thesis
    proof (elim disjE exE conjE)
      fix pre k post assume "ks = pre @ k # post" "mmap_base_addr_low (map_entry_at mmaps k) s = RAM_BASE_ADDR"
        "\<forall>j \<in> set post. mmap_base_addr_low (map_entry_at mmaps j) s \<noteq> RAM_BASE_ADDR" "find_ram mmaps s ks ram = map_entry_at mmaps k"
      then show ?thesis using False unfolding eq by (intro disjI2 exI [of _ pre] exI [of _ k] exI [of _ "post @ [x]"]) auto
    qed (use False eq in auto)
  qed
qed (simp add: find_ram_def)

text \<open>
  A memory map as a boot loader leaves it: the information structure and the map lie in the
  first megabyte, and one entry of the map starts at 1 MB.
\<close>

definition mmaps_of :: "u32 \<Rightarrow> 'a machine_scheme \<Rightarrow> u32" where
  "mmaps_of mbi s = SYSTEM_ADDR_BASE + mbi_mmap_addr mbi s"

definition mmap_count :: "u32 \<Rightarrow> 'a machine_scheme \<Rightarrow> nat" where
  "mmap_count mbi s = unat (mbi_mmap_length mbi s div 24)"

definition memory_map_ok :: "u32 \<Rightarrow> 'a machine_scheme \<Rightarrow> bool" where
  "memory_map_ok mbi s \<longleftrightarrow> unat mbi + 52 \<le> 0xC0100000 \<and> 0 < unat (mmaps_of mbi s) \<and>
     unat (mmaps_of mbi s) + 24 * mmap_count mbi s \<le> 0xC0100000 \<and>
     (\<exists>k < mmap_count mbi s. mmap_base_addr_low (map_entry_at (mmaps_of mbi s) k) s = RAM_BASE_ADDR) \<and>
     (\<forall>k < mmap_count mbi s. sint (mmap_type (map_entry_at (mmaps_of mbi s) k) s) \<noteq> INT_MIN)"

lemma map_entry_nat:
  assumes "memory_map_ok mbi s" and "k < mmap_count mbi s"
  shows "map_entry_at (mmaps_of mbi s) k = of_nat (unat (mmaps_of mbi s) + 24 * k)"
    and "unat (mmaps_of mbi s) + 24 * k + 24 \<le> 0xC0100000"
  using assms by (simp_all add: map_entry_at_def memory_map_ok_def)

lemma load32_low_cong:
  assumes "\<And>a. a < 0xC0100000 \<Longrightarrow> low s' a = low s a" and "y + 4 \<le> 0xC0100000"
  shows "load32 (mem s') (of_nat y) = load32 (mem s) (of_nat y)"
  by (rule load32_cong_nat) (use assms in \<open>simp add: low_def del: of_nat_add\<close>)

lemma memory_map_cong:
  assumes low: "\<And>a. a < 0xC0100000 \<Longrightarrow> low s' a = low s a" and ok: "memory_map_ok mbi s"
  shows "mmaps_of mbi s' = mmaps_of mbi s" "mmap_count mbi s' = mmap_count mbi s" "memory_map_ok mbi s'"
proof -
  have m: "mbi + 44 = of_nat (unat mbi + 44)" "mbi + 48 = of_nat (unat mbi + 48)" "unat mbi + 52 \<le> 0xC0100000"
    using ok by (simp_all add: memory_map_ok_def)
  show base: "mmaps_of mbi s' = mmaps_of mbi s" and n: "mmap_count mbi s' = mmap_count mbi s"
    using load32_low_cong [OF low, of "unat mbi + 44"] load32_low_cong [OF low, of "unat mbi + 48"] m
    by (simp_all add: mmaps_of_def mmap_count_def mbi_mmap_addr_def mbi_mmap_length_def ld_def del: of_nat_add)
  have "ld (map_entry_at (mmaps_of mbi s) k + of_nat off) s' = ld (map_entry_at (mmaps_of mbi s) k + of_nat off) s"
    if "k < mmap_count mbi s" "off + 4 \<le> 24" for k off
    unfolding map_entry_nat(1) [OF ok that(1)] ld_def of_nat_add [symmetric]
    by (rule load32_low_cong [OF low]) (use map_entry_nat(2) [OF ok that(1)] that in auto)
  from this [of _ 4] this [of _ 20] show "memory_map_ok mbi s'"
    using ok unfolding memory_map_ok_def base n mmap_base_addr_low_def mmap_type_def by auto
qed

lemma find_ram_entry:
  assumes "memory_map_ok mbi s"
  shows "find_ram (mmaps_of mbi s) s [0..<mmap_count mbi s] NULL \<noteq> NULL"
proof -
  obtain k0 where k0: "k0 < mmap_count mbi s" "mmap_base_addr_low (map_entry_at (mmaps_of mbi s) k0) s = RAM_BASE_ADDR"
    using assms by (auto simp: memory_map_ok_def)
  obtain k where k: "k < mmap_count mbi s" "find_ram (mmaps_of mbi s) s [0..<mmap_count mbi s] NULL = map_entry_at (mmaps_of mbi s) k"
    using find_ram_cases [of "mmaps_of mbi s" s "[0..<mmap_count mbi s]" NULL]
  proof (elim disjE exE conjE)
    fix pre k post assume "[0..<mmap_count mbi s] = pre @ k # post"
    then have "k \<in> set [0..<mmap_count mbi s]" by simp
    then show ?thesis if "find_ram (mmaps_of mbi s) s [0..<mmap_count mbi s] NULL = map_entry_at (mmaps_of mbi s) k"
        "\<And>k. k < mmap_count mbi s \<Longrightarrow> find_ram (mmaps_of mbi s) s [0..<mmap_count mbi s] NULL = map_entry_at (mmaps_of mbi s) k \<Longrightarrow> thesis"
      using that by simp
  qed (use k0 in auto)
  have "0 < unat (mmaps_of mbi s)" using assms by (simp add: memory_map_ok_def)
  then show ?thesis
    using k map_entry_nat [OF assms k(1)] of_nat_eq_0_32 [of "unat (mmaps_of mbi s) + 24 * k"] by simp
qed

text \<open>C26. The search of the memory map returns the last entry that starts at 1 MB, or \<open>NULL\<close> if there is none; it
  changes nothing but the output.\<close>

theorem find_ram_loop_last:
  assumes "n < 4294967296" and "\<forall>k < n. sint (mmap_type (map_entry_at mmaps k) s) \<noteq> INT_MIN"
  shows "\<exists>ram s'. find_ram_loop mmaps (of_nat n) 0 NULL s = Some (ram, s') \<and> printed s s' \<and>
    (ram = NULL \<and> (\<forall>k < n. mmap_base_addr_low (map_entry_at mmaps k) s \<noteq> RAM_BASE_ADDR) \<or>
     (\<exists>k < n. ram = map_entry_at mmaps k \<and> mmap_base_addr_low (map_entry_at mmaps k) s = RAM_BASE_ADDR \<and>
       (\<forall>j. k < j \<and> j < n \<longrightarrow> mmap_base_addr_low (map_entry_at mmaps j) s \<noteq> RAM_BASE_ADDR)))"
proof -
  obtain s' where s': "find_ram_loop mmaps (of_nat n) 0 NULL s = Some (find_ram mmaps s [0..<n] NULL, s')" "printed s s'"
    using find_ram_loop_spec [of 0 n mmaps s NULL] assms by auto
  from find_ram_cases [of mmaps s "[0..<n]" NULL] show ?thesis
  proof (elim disjE exE conjE)
    fix pre k post assume u: "[0..<n] = pre @ k # post" and k: "mmap_base_addr_low (map_entry_at mmaps k) s = RAM_BASE_ADDR"
      "\<forall>j \<in> set post. mmap_base_addr_low (map_entry_at mmaps j) s \<noteq> RAM_BASE_ADDR" "find_ram mmaps s [0..<n] NULL = map_entry_at mmaps k"
    have "[length pre..<n] = k # post" using arg_cong [OF u, of "drop (length pre)"] by simp
    then have "k < n" "set post = {Suc k..<n}" by (auto simp: upt_eq_Cons_conv)
    then show ?thesis using s' k by auto
  qed (use s' in auto)
qed

subsection \<open>The frame allocator at boot\<close>

lemma printed_fields:
  assumes "printed s s'"
  shows "g_frame_page_directory s' = g_frame_page_directory s" "g_kds_size s' = g_kds_size s" "wired s' = wired s"
    "paging_ok s' = paging_ok s" "tables_empty s' = tables_empty s" "low s' a = low s a" "int_enabled s' = int_enabled s"
    "uart_addr s' = uart_addr s" "kds s' = kds s"
  using assms by (auto simp: printed_def wired_def paging_ok_def pd_placed_def pdn_def pde_w_def tables_empty_def pte_w_def low_def kds_def)

lemma init_frame_alloc_ok:
  assumes "paging_ok s" and "tables_empty s" and "page_dir = f_vaddr (g_frame_page_directory s)" and "g_kds_size s = 0"
    and mm: "memory_map_ok mbi s"
  obtains s' where "init_frame_alloc page_dir kend mbi s = Some s'" "brk_ok s'" "kds s' = 0" "\<forall>q < 0xC0800. pte_w s' q = 0"
proof -
  have n: "mmap_count mbi s < 0x80000000" using mm by (simp add: memory_map_ok_def)
  have cnt: "mbi_mmap_length mbi s div 24 = of_nat (mmap_count mbi s)" by (simp add: mmap_count_def)
  have "sint (of_nat (mmap_count mbi s) :: u32) \<noteq> INT_MIN" by (rule sint_small) (use n in simp)
  then have r: "render ([CHR 0x0A] @ ''Kernel end is at address => %p'' @ [CHR 0x0A]) [VInt kend] \<noteq> None"
    "render ([CHR 0x09] @ ''Memory found length => %d'' @ [CHR 0x0A]) [VInt (of_nat (mmap_count mbi s))] \<noteq> None"
    "render ([CHR 0x09] @ ''Memory found addr => %p'' @ [CHR 0x0A, CHR 0x0A]) [VInt (mmaps_of mbi s)] \<noteq> None"
    "render ([CHR 0x0A] @ ''Available memories :'' @ [CHR 0x0A]) [] \<noteq> None"
    by (simp_all add: render_simps)
  obtain r1 s1 where s1: "kprintf ([CHR 0x0A] @ ''Kernel end is at address => %p'' @ [CHR 0x0A]) [VInt kend] s = Some (r1, s1)" "printed s s1"
    by (rule kprintf_printed [OF r(1)])
  obtain r2 s2 where s2: "kprintf ([CHR 0x09] @ ''Memory found length => %d'' @ [CHR 0x0A]) [VInt (of_nat (mmap_count mbi s))] s1 = Some (r2, s2)" "printed s1 s2"
    by (rule kprintf_printed [OF r(2)])
  obtain r3 s3 where s3: "kprintf ([CHR 0x09] @ ''Memory found addr => %p'' @ [CHR 0x0A, CHR 0x0A]) [VInt (mmaps_of mbi s)] s2 = Some (r3, s3)" "printed s2 s3"
    by (rule kprintf_printed [OF r(3)])
  obtain r4 s4 where s4: "kprintf ([CHR 0x0A] @ ''Available memories :'' @ [CHR 0x0A]) [] s3 = Some (r4, s4)" "printed s3 s4"
    by (rule kprintf_printed [OF r(4)])
  have p4: "printed s s4" using s1(2) s2(2) s3(2) s4(2) printed_trans by blast
  note mm4 = memory_map_cong [OF printed_fields(6) [OF p4] mm]
  obtain s5 where s5: "find_ram_loop (mmaps_of mbi s) (of_nat (mmap_count mbi s)) 0 NULL s4 =
      Some (find_ram (mmaps_of mbi s) s4 [0..<mmap_count mbi s] NULL, s5)" "printed s4 s5"
    using find_ram_loop_spec [of 0 "mmap_count mbi s" "mmaps_of mbi s" s4 NULL] n mm4(3) unfolding memory_map_ok_def mm4(1,2) by auto
  have ram: "find_ram (mmaps_of mbi s) s4 [0..<mmap_count mbi s] NULL \<noteq> NULL" using find_ram_entry [OF mm4(3)] unfolding mm4(1,2) .
  note p5 = printed_fields [OF printed_trans [OF p4 s5(2)]]
  obtain s6 where s6: "setup_frames_addrs page_dir (find_ram (mmaps_of mbi s) s4 [0..<mmap_count mbi s] NULL) s5 = Some s6"
    "brk_ok (init_ram_frames page_dir s6)" "kds (init_ram_frames page_dir s6) = 0" "\<forall>q < 0xC0800. pte_w (init_ram_frames page_dir s6) q = 0"
    by (rule pool_ok [of s5 page_dir, OF _ _ _ _ ram]) (use assms p5 in auto)
  have "init_frame_alloc page_dir kend mbi s = Some (init_ram_frames page_dir s6)"
    unfolding init_frame_alloc_def Let_def mmaps_of_def [symmetric] cnt
    by (simp only: s1(1) s2(1) s3(1) s4(1) s5(1) s6(1) Option.bind.simps prod.case)
  then show ?thesis using s6(2-4) that by blast
qed

subsection \<open>The devices\<close>

lemma irq_init_frame: "\<exists>t. irq_init dev base s = s\<lparr>trace := trace s @ t\<rparr>"
  unfolding irq_init_def inb_def io_wait_def outb_def Let_def by simp blast

lemma uart_is_init_iff: "uart_is_init s \<longleftrightarrow> uart_addr s \<noteq> 0"
  by (simp add: uart_is_init_def)

lemma interrupts_init_frame:
  obtains t r where "interrupts_init a isr s = Some (s\<lparr>g_idt := t, idt_register := r, int_enabled := True\<rparr>)"
  using isr_vectors_range by (auto simp: interrupts_init_def set_isrs_eq enable_interrupts_def load_idt_register_def Let_def)

lemma start_devices_ok:
  assumes "length (g_gdt s) = 6" and "length (g_handlers s) = 256" and "uart_addr s \<noteq> SERIAL_PORT"
  obtains s' where "start_devices dev img stack s = Some s'" "wired s'" "int_enabled s'" "uart_is_init s'" "mem s' = mem s"
    "g_frame_page_directory s' = g_frame_page_directory s" "g_kds_size s' = g_kds_size s"
    "kfs_multiboot_info s' = kfs_multiboot_info s"
proof -
  obtain s1 where s1: "init_flat_gdt (gdt_vaddr img) (tss_vaddr img) stack s = Some s1"
    "printed (s\<lparr>g_gdt := flat_gdt (tss_vaddr img), g_tss := kernel_tss stack 0x10, gdt_register := Some (47, gdt_vaddr img),
       seg_regs := (0x08, 0x10), task_register := 0x2B\<rparr>) s1"
    by (rule init_flat_gdt_spec [OF assms(1)])
  have e1: "length (g_handlers s1) = 256" "uart_addr s1 \<noteq> SERIAL_PORT" "mem s1 = mem s" "g_kds_size s1 = g_kds_size s"
    "g_frame_page_directory s1 = g_frame_page_directory s" "kfs_multiboot_info s1 = kfs_multiboot_info s"
    using s1(2) assms(2,3) by (auto simp: printed_def)
  obtain t where s2: "irq_init dev PICS_BASE s1 = s1\<lparr>trace := trace s1 @ t\<rparr>" using irq_init_frame by blast
  define u where "u = s1\<lparr>trace := trace s1 @ t\<rparr>"
  have u: "length (g_handlers u) = 256" "uart_addr u \<noteq> SERIAL_PORT" using e1 by (simp_all add: u_def)
  obtain s3 s4 s5 t5 where d: "kb_init dev u = Some s3" "pit_init dev 100 s3 = Some s4" "uart_init dev SERIAL_PORT s4 = Some s5"
    and s5: "s5 = u\<lparr>trace := t5, uart_addr := SERIAL_PORT, g_handlers := (g_handlers u)[33 := Some Keyboard_handler,
      32 := Some Pit_handler, 36 := Some Uart_handler]\<rparr>"
    by (rule drivers_wired [OF u, of dev])
  have w: "wired s5" "uart_is_init s5" using u(1) by (simp_all add: s5 wired_def uart_is_init_iff SERIAL_PORT_def)
  obtain ti r where i: "interrupts_init (idt_vaddr img) (isr_vaddr img) s5 = Some (s5\<lparr>g_idt := ti, idt_register := r, int_enabled := True\<rparr>)"
    by (rule interrupts_init_frame)
  have "start_devices dev img stack s = Some (s5\<lparr>g_idt := ti, idt_register := r, int_enabled := True\<rparr>)"
    unfolding start_devices_def using s1(1) s2 d w(2) i by (simp add: u_def)
  then show ?thesis
    by (rule that) (use w e1 in \<open>simp_all add: wired_def uart_is_init_iff s5 u_def\<close>)
qed

text \<open>The frame allocator's initialisation leaves the interrupt state alone.\<close>

definition irq_part :: "'a irqs_scheme \<Rightarrow> u16 \<times> interrupt_handler option list \<times> bool" where
  "irq_part s = (uart_addr s, g_handlers s, int_enabled s)"

lemma irq_part_simps [simp]:
  "irq_part (s\<lparr>mem := m\<rparr>) = irq_part s" "irq_part (u\<lparr>g_frames_context := fc\<rparr>) = irq_part u" "irq_part (st a v s) = irq_part s"
  "irq_part (native_flush_tlb_single a u) = irq_part u" "irq_part (fr_ref_count_set f v s) = irq_part s"
  "irq_part (fr_vaddr_set f v s) = irq_part s"
  by (simp_all add: irq_part_def st_def native_flush_tlb_single_def fr_ref_count_set_def fr_vaddr_set_def)

lemma irq_part_frames:
  "irq_part (init_ram_frames_loop fend c s) = irq_part s" "irq_part (map_frames_ptes pc ml c' pt pde s) = irq_part s"
  "irq_part (map_frames_pdes pd pc ml c' s) = irq_part s"
proof -
  show ptes: "irq_part (map_frames_ptes pc ml c' pt pde s) = irq_part s" for pc ml c' pt pde and s :: "'a kmem_scheme"
    by (induction pc ml c' pt pde s rule: map_frames_ptes.induct) (subst map_frames_ptes.simps, simp add: Let_def)
  show "irq_part (init_ram_frames_loop fend c s) = irq_part s"
    by (induction fend c s rule: init_ram_frames_loop.induct) (subst init_ram_frames_loop.simps, simp add: Let_def)
  show "irq_part (map_frames_pdes pd pc ml c' s) = irq_part s"
    by (induction pd pc ml c' s rule: map_frames_pdes.induct) (subst map_frames_pdes.simps, simp add: Let_def ptes)
qed

lemma irq_part_alloc:
  assumes "init_frame_alloc page_dir kend mbi s = Some s'"
  shows "irq_part s' = irq_part s"
proof -
  have kp: "kprintf f ap u = Some (r, u') \<Longrightarrow> irq_part u' = irq_part u" for f ap r and u u' :: "'a kmem_scheme"
    by (auto simp: kprintf_eq irq_part_def)
  have loop: "find_ram_loop a b c d u = Some (r, u') \<Longrightarrow> irq_part u' = irq_part u" for a b c d r and u u' :: "'a kmem_scheme"
  proof (induction "unat b - unat c" arbitrary: c d u rule: less_induct)
    case less
    show ?case
    proof (cases "c < b")
      case True
      obtain f ap x u1 d' where "kprintf f ap u = Some (x, u1)" and next_entry: "find_ram_loop a b (c + 1) d' u1 = Some (r, u')"
        using less.prems True by (subst (asm) find_ram_loop.simps) (auto simp: bind_eq_Some Let_def split: if_splits)
      then show ?thesis using less.hyps [OF loop_measure [OF True] next_entry] kp by metis
    next
      case False
      then show ?thesis using less.prems by (subst (asm) find_ram_loop.simps) simp
    qed
  qed
  have pool: "setup_frames_addrs page_dir mp u = Some u' \<Longrightarrow> irq_part u' = irq_part u" for mp and u u' :: "'a kmem_scheme"
    by (auto simp: setup_frames_addrs_def init_page_directory_for_frames_def Let_def irq_part_frames split: if_splits)
  show ?thesis
    using assms by (auto simp: init_frame_alloc_def bind_eq_Some init_ram_frames_def Let_def irq_part_frames dest!: kp loop pool)
qed

subsection \<open>The memory manager while the kernel runs\<close>

lemma brk_ok_screen:
  fixes s s' :: "'a kmem_scheme"
  assumes "brk_ok s" and "screen_only s s'" and "g_frame_page_directory s' = g_frame_page_directory s"
    "g_frames_context s' = g_frames_context s" "g_kds_size s' = g_kds_size s"
  shows "brk_ok s'"
proof (rule brk_ok_cong [OF assms(1)])
  fix y :: nat assume "0xC0100000 \<le> y" "y < 4294967296"
  then show "mem s' (of_nat y) = mem s (of_nat y)" using assms(2) by (simp add: screen_only_def cell_def)
qed (use assms in simp_all)

text \<open>What holds from the end of the boot on.\<close>

definition kernel_ok :: "'a kernel_scheme \<Rightarrow> bool" where
  "kernel_ok s \<longleftrightarrow> brk_ok s \<and> wired s \<and> int_enabled s \<and> uart_is_init s"

lemma kernel_ok_irqs:
  assumes "kernel_ok s" and "irq_effect k s s'"
  shows "kernel_ok s'" and "kds s' = kds s" and "first s' = first s"
proof -
  obtain t m b where s': "s' = s\<lparr>trace := trace s @ t, mem := m, ticks := ticks s + of_nat k, send_char := b\<rparr>" and scr: "screen_only s s'"
    using assms(2) by (auto simp: irq_effect_def)
  have "brk_ok s'" by (rule brk_ok_screen [OF _ scr]) (use assms(1) in \<open>simp_all add: kernel_ok_def s'\<close>)
  then show "kernel_ok s'" using assms(1) by (simp add: kernel_ok_def s' wired_def uart_is_init_iff)
  show "kds s' = kds s" "first s' = first s" by (simp_all add: s' kds_def)
qed

lemma kernel_ok_printed: "kernel_ok s \<Longrightarrow> printed s s' \<Longrightarrow> kernel_ok s' \<and> kds s' = kds s"
  by (auto simp: kernel_ok_def printed_def brk_ok_out kds_def wired_def uart_is_init_iff)

lemma kernel_ok_printk:
  assumes "kernel_ok s" and "length str \<le> 2000"
  shows "kernel_ok (printk str s)" and "kds (printk str s) = kds s"
proof -
  obtain t m where p: "printk str s = s\<lparr>trace := trace s @ t, mem := m\<rparr>" and scr: "screen_only s (s\<lparr>mem := m\<rparr>)"
    using printk_frame [OF assms(2)] by blast
  then have "screen_only s (printk str s)" by (simp add: screen_only_def)
  then have "brk_ok (printk str s)" by (rule brk_ok_screen [rotated]) (use assms(1) in \<open>simp_all add: kernel_ok_def p\<close>)
  then show "kernel_ok (printk str s)" using assms(1) by (simp add: kernel_ok_def p wired_def uart_is_init_iff)
  show "kds (printk str s) = kds s" by (simp add: p kds_def)
qed

subsection \<open>The final loop\<close>

text \<open>A \<open>ret\<close> instruction less than 2 GB behind the start of \<open>main_userland\<close>.\<close>

definition ret_found :: "image \<Rightarrow> 'a kernel_scheme \<Rightarrow> bool" where
  "ret_found img s \<longleftrightarrow> (\<exists>k < 0x7FFFFFFF. mem s (main_userland_addr img + of_nat k) = 0xC3)"

lemma find_ret_first:
  assumes "mem s (a + of_nat k) = 0xC3" and "\<And>j. j < k \<Longrightarrow> mem s (a + of_nat j) \<noteq> 0xC3"
  shows "find_ret a s = Some (a + of_nat k)"
  using assms
proof (induction k arbitrary: a)
  case 0
  then show ?case by (subst find_ret.simps) simp
next
  case (Suc k)
  have "mem s a \<noteq> 0xC3" using Suc.prems(2) [of 0] by simp
  moreover have "find_ret (a + 1) s = Some (a + 1 + of_nat k)"
    by (rule Suc.IH) (use Suc.prems(1) Suc.prems(2) [of "Suc _"] in \<open>simp_all add: add_ac\<close>)
  ultimately show ?case by (subst find_ret.simps) (simp add: add_ac)
qed

lemma prepare_userland_returns:
  assumes "ret_found img s"
  shows "\<exists>k s'. k < 0x7FFFFFFF \<and> find_ret (main_userland_addr img) s = Some (main_userland_addr img + of_nat k) \<and>
    (\<forall>j < k. mem s (main_userland_addr img + of_nat j) \<noteq> 0xC3) \<and> prepare_userland img s = Some s' \<and> printed s s'"
proof -
  let ?a = "main_userland_addr img"
  define k where "k = (LEAST k. mem s (?a + of_nat k) = 0xC3)"
  obtain k0 where k0: "k0 < 0x7FFFFFFF" "mem s (?a + of_nat k0) = 0xC3" using assms by (auto simp: ret_found_def)
  have hit: "mem s (?a + of_nat k) = 0xC3" unfolding k_def by (rule LeastI [of _ k0]) (rule k0(2))
  have no: "mem s (?a + of_nat j) \<noteq> 0xC3" if "j < k" for j using not_less_Least that unfolding k_def by blast
  have lt: "k < 0x7FFFFFFF" using Least_le [of "\<lambda>k. mem s (?a + of_nat k) = 0xC3" k0] k0 unfolding k_def by simp
  note found = find_ret_first [OF hit no]
  have "sint (of_nat (k + 1) :: u32) \<noteq> INT_MIN" by (rule sint_small) (use lt in simp)
  then have "render (''func_start: %p => %p [%d]'' @ [CHR 0x0A]) [VInt ?a, VInt (?a + of_nat k), VInt (of_nat (k + 1))] \<noteq> None"
    by (simp add: render_simps del: of_nat_add)
  then obtain r s' where "kprintf (''func_start: %p => %p [%d]'' @ [CHR 0x0A]) [VInt ?a, VInt (?a + of_nat k), VInt (of_nat (k + 1))] s = Some (r, s')"
    "printed s s'" by (rule kprintf_printed)
  moreover have "?a + of_nat k - ?a + 1 = (of_nat (k + 1) :: u32)" by simp
  ultimately have "prepare_userland img s = Some s'" "printed s s'"
    unfolding prepare_userland_def Let_def by (simp_all only: found Option.bind.simps prod.case)
  then show ?thesis using lt found no by blast
qed

definition enough_ticks :: "(nat \<Rightarrow> nat \<Rightarrow> regs list) \<Rightarrow> bool" where
  "enough_ticks irqs \<longleftrightarrow> (\<forall>i. (\<forall>j. device_irqs (irqs i j)) \<and> (\<exists>k. 100 < (of_nat (ticks_upto (irqs i) k) :: u32)))"

lemma sleep_one:
  assumes "kernel_ok s" and "enough_ticks irqs"
  obtains s' where "sleep dev (irqs i) 1 s = Some (Returned s')" "kernel_ok s'" "kds s' = kds s"
proof -
  have w: "wired s" using assms(1) by (simp add: kernel_ok_def)
  have irqs: "\<And>j. device_irqs (irqs i j)" "\<exists>k. 1 * 100 < (of_nat (ticks_upto (irqs i) k) :: u32)"
    using assms(2) by (simp_all add: enough_ticks_def)
  obtain k s' where "sleep dev (irqs i) 1 s = Some (Returned s')" "irq_effect (ticks_upto (irqs i) k) s s'"
    by (rule sleep_wakes_eventually [OF w irqs, of dev])
  then show ?thesis using that kernel_ok_irqs [OF assms(1)] by blast
qed

lemma hello_rounds_return:
  assumes "kernel_ok s" and "enough_ticks irqs"
  shows "\<exists>s'. hello_rounds dev irqs n s = Some (Returned s') \<and> kernel_ok s' \<and> kds s' = kds s"
  using assms
proof (induction n arbitrary: s irqs)
  case (Suc n)
  let ?s = "printk (''hello world !'' @ [CHR 0x0A]) s"
  have "kernel_ok ?s" "kds ?s = kds s" using kernel_ok_printk [OF Suc.prems(1), of "''hello world !'' @ [CHR 0x0A]"] by simp_all
  moreover from sleep_one [OF this(1) Suc.prems(2)] obtain s1 where
    "sleep dev (irqs 0) 1 ?s = Some (Returned s1)" "kernel_ok s1" "kds s1 = kds ?s" by metis
  moreover have "enough_ticks (\<lambda>i. irqs (Suc i))" using Suc.prems(2) by (simp add: enough_ticks_def)
  ultimately show ?case using Suc.IH [of s1 "\<lambda>i. irqs (Suc i)"] by auto
qed simp

text \<open>C23. Once booted the kernel never stops: if the code of \<open>main_userland\<close> has a \<open>ret\<close> instruction, only the devices
  interrupt and the timer keeps ticking, then after any number of rounds of \<open>print_hello_world\<close> the
  kernel is still in that loop, with the invariants of the memory manager, the handlers and an unchanged
  kernel data segment.\<close>

theorem run_kernel_loops:
  assumes "kernel_ok s" and "ret_found img s" and "enough_ticks irqs"
  shows "\<exists>s'. run_kernel dev img irqs rounds s = Some (Boot_running s') \<and> kernel_ok s' \<and> kds s' = kds s"
proof -
  obtain s1 where s1: "prepare_userland img s = Some s1" "printed s s1" using prepare_userland_returns [OF assms(2)] by blast
  have ok1: "kernel_ok s1" "kds s1 = kds s" using kernel_ok_printed [OF assms(1) s1(2)] by auto
  let ?s = "printk [CHR 0x0A] s1"
  have "kernel_ok ?s" "kds ?s = kds s1" using kernel_ok_printk [OF ok1(1), of "[CHR 0x0A]"] by simp_all
  with hello_rounds_return [OF _ assms(3), of ?s dev rounds] obtain s' where
    "hello_rounds dev irqs rounds ?s = Some (Returned s')" "kernel_ok s'" "kds s' = kds s" using ok1(2) by auto
  then show ?thesis using s1(1) by (simp add: run_kernel_def print_hello_world_def)
qed

subsection \<open>From the boot loader to the final loop\<close>

definition boot_state :: "image \<Rightarrow> u32 \<Rightarrow> 'a kernel_scheme \<Rightarrow> bool" where
  "boot_state img mbi s \<longleftrightarrow> dir_placed (page_dir_addr img) \<and> length (g_handlers s) = 256 \<and> length (g_gdt s) = 6 \<and>
     g_kds_size s = 0 \<and> uart_addr s = 0 \<and> memory_map_ok (SYSTEM_ADDR_BASE + mbi) s"

lemma main_frame:
  assumes "dir_placed (page_dir_addr img)" and "length (g_handlers s) = 256"
  obtains s1 where "finalize_pagination (page_dir_addr img) (main img magic mbi s) = Some s1" "dir_ready (page_dir_addr img) s1"
    "g_kds_size s1 = g_kds_size s" "\<forall>a < 0xC0100000. low s1 a = low s a" "length (g_handlers s1) = 256" "g_gdt s1 = g_gdt s"
    "uart_addr s1 = uart_addr s" "kfs_magic_number s1 = magic" "kfs_multiboot_info s1 = SYSTEM_ADDR_BASE + mbi"
proof -
  let ?s = "s\<lparr>kfs_magic_number := magic, kfs_multiboot_info := SYSTEM_ADDR_BASE + mbi, cr4 := cr4 s OR 0x10,
    cr3 := page_dir_addr img - 0xc0000000, cr0 := cr0 s OR 0x80000000\<rparr>"
  have main: "main img magic mbi s = init_page_directory (page_dir_addr img) ?s"
    by (simp add: main_def enable_paging_def init_page_directory_def st_def Let_def)
  have len: "length (g_handlers ?s) = IDT_SIZE" using assms(2) by (simp add: IDT_SIZE_def)
  obtain s1 where s1: "finalize_pagination (page_dir_addr img) (init_page_directory (page_dir_addr img) ?s) = Some s1"
    "dir_ready (page_dir_addr img) s1" "g_kds_size s1 = g_kds_size ?s" "\<forall>a < 0xC0100000. low s1 a = low ?s a"
    "length (g_handlers s1) = IDT_SIZE" "kmem.more s1 = kmem.more ?s" "uart_addr s1 = uart_addr ?s"
    by (rule finalize_ok [OF assms(1) len])
  have "g_gdt s1 = g_gdt ?s" "kfs_magic_number s1 = kfs_magic_number ?s" "kfs_multiboot_info s1 = kfs_multiboot_info ?s"
    using s1(6) by (cases s1; cases s; simp)+
  then show ?thesis using s1 that unfolding main by (simp add: low_def IDT_SIZE_def)
qed


end
