(* ===== verification/Pool.thy ===== *)
theory Pool
  imports BootPaging
begin

text \<open>
  The frame pool that the boot code leaves behind, and the kernel break on it: which frames are
  free, when \<open>sbrk\<close> succeeds, where the MMU finds the pages it maps, and what becomes of memory
  that is given back.
\<close>

subsection \<open>The pool after the boot\<close>

lemma frame_pte_ignored: "pte_ignored (frame_pte q) = 0"
  unfolding frame_pte_def
  by (rule bit_word_eqI) (auto simp: pte_ignored_def pte_flags_set_def pte_addr_set_def bit_simps bit_pres_rw simp del: bit_or_iff)

text \<open>The physical address of a byte of the frame array.\<close>

lemma get_physaddr_frame_array:
  assumes "paging_ok s" and "page_dir = f_vaddr (g_frame_page_directory s)" and q: "q < 3072" and off: "off < 4096"
    and "bit (pde_w s ((0xC0800 + q) div 1024)) 0" and "pte_w s (0xC0800 + q) = frame_pte (0xC0800 + q)"
  shows "get_physaddr page_dir (of_nat (0xC0800000 + 4096 * q + off)) s = of_nat (0x800000 + 4096 * q + off)"
proof -
  let ?p = "0xC0800 + q"
  have p: "?p < 0x100000" "?p div 1024 \<notin> kernel_pdes" using q by (auto simp: kernel_pdes_def)
  have v: "0xC0800000 + 4096 * q + off = 4096 * ?p + off" by simp
  note w = walk_page [OF assms(1,2) p off]
  have "(frame_pte ?p AND 0xFFFFF000) OR of_nat off = of_nat (0x800000 + 4096 * q + off)"
    using frame_pte_walk(2) [of ?p] page_join(1) [of "0x800 + q"] page_join(2) [OF off, of "0x800 + q"] by (simp add: algebra_simps)
  then show ?thesis
    unfolding get_physaddr_cases Let_def v w(1,2) page_split(3) [OF p(1) off] using assms(5,6) w(3) frame_pte_walk(1) frame_pte_ignored by simp
qed

lemma array_end_aligned: "4096 dvd 12 * n \<longleftrightarrow> 1024 dvd (n :: nat)"
proof
  have c: "coprime (1024 :: nat) 3" by (simp add: coprime_iff_gcd_eq_1 gcd_non_0_nat)
  assume "4096 dvd 12 * n"
  then obtain k where "12 * n = 4096 * k" by (rule dvdE)
  then have "3 * n = 1024 * k" by linarith
  then have "1024 dvd 3 * n" by simp
  then show "1024 dvd n" using c by (simp only: coprime_dvd_mult_right_iff)
next
  assume "1024 dvd n"
  then obtain k where "n = 1024 * k" by (rule dvdE)
  then show "4096 dvd 12 * n" by (intro dvdI [of _ _ "3 * k"]) simp
qed

lemma pool_frames:
  assumes ok: "paging_ok s" and dir: "page_dir = f_vaddr (g_frame_page_directory s)" and mp: "mp \<noteq> NULL"
  defines "n \<equiv> unat ((mmap_length_low mp s - KERNEL_SIZE_IN_RAM) div FRAME_SIZE)"
  obtains s2 s' where "setup_frames_addrs page_dir mp s = Some s2" "init_ram_frames page_dir s2 = s'" "nframes s' = n"
    "fc_map (g_frames_context s') = mp" "\<And>a. a < 0xC0000000 \<Longrightarrow> low s' a = low s a" "\<And>i. i < n \<Longrightarrow> fw s' i 4 = 0"
    "\<And>i. n mod 1024 \<noteq> 0 \<Longrightarrow> i < n \<Longrightarrow> i < 0xFFF00 \<Longrightarrow> rc s' i = (if 0x100000 + 4096 * i < 0x800000 + 12 * n then 1 else 0)"
proof -
  obtain s2 where s2: "setup_frames_addrs page_dir mp s = Some s2" "paging_ok s2" "g_frame_page_directory s2 = g_frame_page_directory s"
    "nframes s2 = n" "n \<le> 0xFFFFF" "frames_meta_start_vaddr (g_frames_context s2) = FRAMES_START_VADDR"
    "\<And>a. a < 0xC0000000 \<Longrightarrow> low s2 a = low s a" "fc_map (g_frames_context s2) = mp"
    "frames_meta_end_vaddr (g_frames_context s2) = of_nat (0xC0800000 + 12 * n)"
    "12 * n mod 0x400000 \<noteq> 0 \<Longrightarrow> q < pages_of (12 * n) \<Longrightarrow>
       bit (pde_w s2 ((0xC0800 + q) div 1024)) 0 \<and> pte_w s2 (0xC0800 + q) = frame_pte (0xC0800 + q)" for q
    using setup_frames_addrs_spec [OF ok dir mp] unfolding n_def by metis
  have "nframes s2 \<le> 0x100000" using s2(4,5) by simp
  then obtain s' where s': "init_ram_frames page_dir s2 = s'" "mm_keeps s2 s'"
    "\<forall>i < n. fw s' i 0 = (if ram_used (get_physaddr page_dir (of_nat (0xC0800000 + 12 * n)) s2) i then 1 else 0) \<and> fw s' i 4 = 0"
    using init_ram_frames_spec [OF s2(2) _ s2(6) refl, of page_dir] unfolding s2(4,9) by auto
  have "rc s' i = (if 0x100000 + 4096 * i < 0x800000 + 12 * n then 1 else 0)" if n: "n mod 1024 \<noteq> 0" and i: "i < n" "i < 0xFFF00" for i
  proof -
    let ?q = "12 * n div 4096" and ?off = "12 * n mod 4096"
    have "\<not> 4096 dvd 12 * n" using n array_end_aligned [of n] by (simp add: mod_eq_0_iff_dvd)
    then have "12 * n mod 0x400000 \<noteq> 0" "?q < pages_of (12 * n)"
      using dvd_trans [of 4096 "0x400000" "12 * n"] pages_of_alt [of "12 * n"] by (auto simp: mod_eq_0_iff_dvd mod_greater_zero_iff_not_dvd)
    then have "get_physaddr page_dir (of_nat (0xC0800000 + 4096 * ?q + ?off)) s2 = of_nat (0x800000 + 4096 * ?q + ?off)"
      using s2(2,3,5,10) dir by (intro get_physaddr_frame_array) auto
    moreover have "4096 * ?q + ?off = 12 * n" by (rule mult_div_mod_eq)
    ultimately have "get_physaddr page_dir (of_nat (0xC0800000 + 12 * n)) s2 = of_nat (0x800000 + 12 * n)" by (simp only: add.assoc)
    moreover have "ram_used (of_nat (0x800000 + 12 * n)) i \<longleftrightarrow> 0x100000 + 4096 * i < 0x800000 + 12 * n"
      using of_nat_less_32 [of "0x100000 + 4096 * i" "0x800000 + 12 * n"] i s2(5)
      by (simp add: ram_used_def RAM_BASE_ADDR_def FRAME_SIZE_def algebra_simps)
    ultimately show ?thesis using s'(3) i by (simp add: fw_def rc_load)
  qed
  then show ?thesis using that [OF s2(1) s'(1)] s'(2,3) s2(4,7,8) by (simp add: mm_keeps_def nframes_def)
qed


subsection \<open>The kernel break\<close>

lemma sbrk_unblocked:
  assumes "brk_ok s" and "0 < n" and "n < 0x80000000" and free: "\<not> growth_blocked n s"
  shows "\<exists>s'. sbrk (int n) s = Some (of_nat (KDS_BASE + 4096 * pages_of (kds s)), s') \<and> kds s' = kds s + n \<and> brk_ok s'"
proof -
  obtain r s' where s': "sbrk (int n) s = Some (r, s')" "brk_ok s'"
    "r = MINUS_ONE \<and> kds s' = kds s \<or> r = of_nat (KDS_BASE + 4096 * pages_of (kds s)) \<and> kds s' = kds s + n"
    using sbrk_grow [OF assms(1-3)] by blast
  have "r \<noteq> MINUS_ONE \<or> kds s' \<noteq> kds s"
    by (cases rule: sbrk_grow_cases [OF assms(1-3)]) (use free s' kbrk.end_not_minus_one [OF assms(1)] in \<open>auto simp: KDS_BASE_def\<close>)
  then show ?thesis using s' by blast
qed

text \<open>C7. \<open>sbrk\<close> with a positive size fails only for a reason: if the segment stays within the limit, a run of
  free frames of the length asked for exists and none of the pages behind the segment is mapped, it
  returns the old end of the segment, which has then grown by the size.\<close>

theorem sbrk_succeeds:
  assumes "brk_ok s" and "0 < n" and "n < 0x80000000" and "\<not> over_limit n s"
    and "i + pages_of n \<le> nframes s" and "free_run s i (pages_of n)" and "\<forall>q \<in> pages_behind n s. mappable s q"
  shows "\<exists>s'. sbrk (int n) s = Some (of_nat (KDS_BASE + 4096 * pages_of (kds s)), s') \<and> kds s' = kds s + n \<and> brk_ok s'"
  by (rule sbrk_unblocked [OF assms(1-3)]) (use assms(4-7) in \<open>auto simp: growth_blocked_def\<close>)

text \<open>C9. Where the pages of the kernel data segment are: on a pool whose entries have the address 0, as the boot
  code leaves it, the MMU translates every page that \<open>sbrk\<close> has added to the segment to physical page
  0. All of them are the same page of physical memory.\<close>

theorem sbrk_maps_page_zero:
  assumes "brk_ok s" and "0 < n" and "n < 0x80000000" and "\<forall>i < nframes s. fr_addr (get_frame_at (of_nat i)) s = 0"
    and "sbrk (int n) s = Some (r, s')" and "r \<noteq> MINUS_ONE" and "y < n"
  shows "mmu_walk (f_vaddr (get_kpd_frame s')) (r + of_nat y) s' = Some (of_nat (y mod 4096))"
proof (cases rule: sbrk_grow_cases [OF assms(1-3)])
  case (1 v)
  then show ?thesis using assms(5,6) by simp
next
  case (2 i u v)
  let ?k = "0x8000 + pages_of (kds s)" and ?q = "y div 4096"
  let ?p = "?k + ?q"
  have r: "r = of_nat (4096 * ?k)" and s': "s' = v\<lparr>g_kds_size := g_kds_size s + of_nat n\<rparr>" using assms(5) 2(1) by simp_all
  have q: "?q < pages_of n" using assms(7) unfolding pages_of_def by simp
  have p: "?p < 0xC0000" using q 2(5) by simp
  have n: "nframes s \<le> 0x100000" using assms(1) by (simp add: brk_ok_def frames_ok_def)
  have "fw u (i + ?q) 4 = fr_addr (get_frame_at (of_nat (i + ?q))) s"
    using 2(6,9) q n address_rules(7) [OF refl, of "i + ?q" s] by simp
  also have "\<dots> = 0" using assms(4) 2(6) q by (simp del: of_nat_add)
  finally have "pte_w v ?p = map_entry 0 (PF_PRES OR PF_RW) (pte_w u ?p)" "bit (pde_w v (?p div 1024)) 0"
    using 2(7) q p unfolding mapped_def by auto
  then have w: "mmu_walk (f_vaddr (g_frame_page_directory v)) (of_nat (4096 * ?p + y mod 4096)) v = Some (of_nat (y mod 4096))"
    using mmu_walk_page [OF 2(2) refl _ user_pde [OF p], of "y mod 4096"] p map_entry_walk [of 0] by simp
  have "r + of_nat y = of_nat (4096 * ?k + y)" unfolding r by simp
  also have "4096 * ?k + y = 4096 * ?p + y mod 4096" by (simp add: algebra_simps)
  finally have "r + of_nat y = of_nat (4096 * ?p + y mod 4096)" .
  moreover have "mmu_walk d a s' = mmu_walk d a v" for d a by (simp add: s' mmu_walk_def walk_pde_def walk_pte_def)
  ultimately show ?thesis using w by (simp add: s' get_kpd_frame_def del: of_nat_add of_nat_mult)
qed


subsection \<open>A machine with 16 MB\<close>

text \<open>The boot loader's entry for a RAM of 16 MB at 1 MB lies at 0x9000; the machine is booted from there.\<close>

definition ram_machine :: kmem where
  "ram_machine = (blank_kernel ())\<lparr>mem := store32 (store32 (\<lambda>_. 0) (of_nat 0x9004) 0x100000) (of_nat 0x900C) 0x1000000\<rparr>"

lemma ram_machine_boots:
  obtains s' where "boot_mm 0xC0101000 0x9000 ram_machine = Some s'" "brk_ok s'" "kds s' = 0" "nframes s' = 0x900"
    "\<And>i. i < 0x900 \<Longrightarrow> fr_addr (get_frame_at (of_nat i)) s' = 0" "\<And>i. 0x707 \<le> i \<Longrightarrow> i < 0x900 \<Longrightarrow> rc s' i = 0"
    "\<And>q. q < 0xC0000 \<Longrightarrow> mappable s' q" "\<And>n. pages_of n < 0x1000 \<Longrightarrow> \<not> over_limit n s'"
proof (rule finalize_ok [of "0xC0101000" ram_machine])
  show "dir_placed 0xC0101000" "length (g_handlers ram_machine) = IDT_SIZE" by (simp_all add: dir_placed_def ram_machine_def blank_kernel_def)
  fix s1 assume s1: "finalize_pagination 0xC0101000 (init_page_directory 0xC0101000 ram_machine) = Some s1" "dir_ready 0xC0101000 s1"
    "g_kds_size s1 = g_kds_size ram_machine" "\<forall>a < 0xC0100000. low s1 a = low ram_machine a"
  let ?t = "init_page_tables s1"
  note pt = tables_ok [OF s1(2)]
  have low: "low ?t a = low ram_machine a" if "a < 0xC0000000" for a using pt(5) [of a] s1(4) that by simp
  have reads: "load32 (mem u) (of_nat 0x9004) = 0x100000" "load32 (mem u) (of_nat 0x900C) = 0x1000000"
    if "\<And>a. a < 0xC0000000 \<Longrightarrow> low u a = low ram_machine a" for u :: kmem
  proof -
    have "load32 (mem u) (of_nat y) = load32 (mem ram_machine) (of_nat y)" if "y < 0xBFFFFFFC" for y
      by (rule load32_cong_nat) (use that \<open>\<And>a. a < 0xC0000000 \<Longrightarrow> low u a = low ram_machine a\<close> in \<open>simp add: low_def del: of_nat_add\<close>)
    then show "load32 (mem u) (of_nat 0x9004) = 0x100000" "load32 (mem u) (of_nat 0x900C) = 0x1000000"
      by (simp_all add: ram_machine_def load32_store32_nat del: of_nat_numeral)
  qed
  have len: "mmap_length_low 0x9000 ?t = 0x1000000" using reads(2) [OF low] by (simp add: mmap_length_low_def ld_def)
  have k0: "g_kds_size ?t = 0" using pt(4) s1(3) by (simp add: ram_machine_def blank_kernel_def)
  obtain s2 where s2: "setup_frames_addrs 0xC0101000 0x9000 ?t = Some s2" "brk_ok (init_ram_frames 0xC0101000 s2)"
    "kds (init_ram_frames 0xC0101000 s2) = 0" "\<forall>q < 0xC0800. pte_w (init_ram_frames 0xC0101000 s2) q = 0"
    by (rule pool_ok [OF pt(1-3) k0, of "0x9000"]) auto
  have n: "unat ((mmap_length_low 0x9000 ?t - KERNEL_SIZE_IN_RAM) div FRAME_SIZE) = 0x900" by (simp add: len layout_values FRAME_SIZE_def)
  obtain s' where s': "init_ram_frames 0xC0101000 s2 = s'" "nframes s' = 0x900" "fc_map (g_frames_context s') = 0x9000"
    "\<And>a. a < 0xC0000000 \<Longrightarrow> low s' a = low ?t a" "\<And>i. i < 0x900 \<Longrightarrow> fw s' i 4 = 0"
    "\<And>i. i < 0x900 \<Longrightarrow> rc s' i = (if 0x100000 + 4096 * i < 0x800000 + 12 * 0x900 then 1 else 0)"
    by (rule pool_frames [OF pt(1,3), of "0x9000", unfolded n]) (use s2(1) in auto)
  have boots: "boot_mm 0xC0101000 0x9000 ram_machine = Some s'" by (simp add: boot_mm_def s1(1) s2(1) s'(1))
  show ?thesis
  proof (rule that [OF boots s2(2,3) [unfolded s'(1)] s'(2)])
    show "fr_addr (get_frame_at (of_nat i)) s' = 0" if "i < 0x900" for i
      using s'(5) [OF that] address_rules(7) [OF refl, of i s'] by simp
    show "rc s' i = 0" if "0x707 \<le> i" "i < 0x900" for i using s'(6) [OF that(2)] that(1) by simp
    show "mappable s' q" if "q < 0xC0000" for q using s2(4) that by (simp add: mappable_def user_pde s'(1))
    have "load32 (mem s') 0x9004 = 0x100000" "load32 (mem s') 0x900C = 0x1000000" using reads [of s'] s'(4) low by simp_all
    moreover have "g_kds_size s' = 0" using s2(3) by (simp add: kds_def s'(1) unat_eq_0)
    ultimately show "\<not> over_limit n s'" if "pages_of n < 0x1000" for n
      using of_nat_le_32 [of "pages_of n" "0x101000"] that
      by (simp add: over_limit_def s'(3) mmap_base_addr_low_def mmap_length_low_def ld_def FRAME_SIZE_def not_less)
  qed
qed

lemma ram_machine_grows:
  obtains s s' where "boot_mm 0xC0101000 0x9000 ram_machine = Some s" "brk_ok s" "\<forall>i < nframes s. fr_addr (get_frame_at (of_nat i)) s = 0"
    "sbrk (int 8192) s = Some (0x8000000, s')" "kds s' = 8192" "brk_ok s'"
proof (rule ram_machine_boots)
  fix s assume s: "boot_mm 0xC0101000 0x9000 ram_machine = Some s" "brk_ok s" "kds s = 0" "nframes s = 0x900"
    "\<And>i. i < 0x900 \<Longrightarrow> fr_addr (get_frame_at (of_nat i)) s = 0" "\<And>i. 0x707 \<le> i \<Longrightarrow> i < 0x900 \<Longrightarrow> rc s i = 0"
    "\<And>q. q < 0xC0000 \<Longrightarrow> mappable s q" "\<And>n. pages_of n < 0x1000 \<Longrightarrow> \<not> over_limit n s"
  have two: "pages_of 8192 = 2" "pages_of 0 = 0" by (simp_all add: pages_of_def)
  have "free_run s 0x707 2" using s(6) by (auto simp: free_run_def)
  then have "\<not> growth_blocked 8192 s" using s(3,4,7,8) two by (auto simp: growth_blocked_def pages_behind_def intro!: exI [of _ "0x707"])
  from sbrk_unblocked [OF s(2) _ _ this] obtain s' where
    "sbrk (int 8192) s = Some (0x8000000, s')" "kds s' = 8192" "brk_ok s'" using s(3) two by (auto simp: KDS_BASE_def)
  then show ?thesis using that [OF s(1,2)] s(4,5) by simp
qed


theorem sbrk_succeeds_witness:
  "\<exists>s s'. boot_mm 0xC0101000 0x9000 ram_machine = Some s \<and> sbrk (int 8192) s = Some (0x8000000, s') \<and> kds s' = 8192"
proof (rule ram_machine_boots)
  fix s assume s: "boot_mm 0xC0101000 0x9000 ram_machine = Some s" "brk_ok s" "kds s = 0" "nframes s = 0x900"
    "\<And>i. 0x707 \<le> i \<Longrightarrow> i < 0x900 \<Longrightarrow> rc s i = 0" "\<And>q. q < 0xC0000 \<Longrightarrow> mappable s q" "\<And>n. pages_of n < 0x1000 \<Longrightarrow> \<not> over_limit n s"
  have two: "pages_of 8192 = 2" "pages_of 0 = 0" by (simp_all add: pages_of_def)
  have "\<exists>s'. sbrk (int 8192) s = Some (of_nat (KDS_BASE + 4096 * pages_of (kds s)), s') \<and> kds s' = kds s + 8192 \<and> brk_ok s'"
    by (rule sbrk_succeeds [OF s(2), where i = "0x707"]) (use s two in \<open>auto simp: free_run_def pages_behind_def\<close>)
  then show ?thesis using s(1,3) two by (auto simp: KDS_BASE_def)
qed

theorem sbrk_maps_page_zero_witness:
  "\<exists>s s'. boot_mm 0xC0101000 0x9000 ram_machine = Some s \<and> sbrk (int 8192) s = Some (0x8000000, s') \<and>
     mmu_walk (f_vaddr (get_kpd_frame s')) 0x8000005 s' = Some 5 \<and> mmu_walk (f_vaddr (get_kpd_frame s')) 0x8001005 s' = Some 5"
proof (rule ram_machine_grows)
  fix s s' assume s: "boot_mm 0xC0101000 0x9000 ram_machine = Some s" "brk_ok s" "\<forall>i < nframes s. fr_addr (get_frame_at (of_nat i)) s = 0"
    "sbrk (int 8192) s = Some (0x8000000, s')"
  note zero = sbrk_maps_page_zero [OF s(2) _ _ s(3,4)]
  from zero [of 5] zero [of 4101] s(1,4) show ?thesis by auto
qed


end
