(* ===== verification/Machines.thy ===== *)
theory Machines
  imports BootProps Pool
begin

text \<open>
  Concrete machines on which the properties of the devices, the segments and the boot are
  instantiated: a blank one, one with the drivers' handlers registered, one as a boot loader
  leaves it, and one that runs.
\<close>

subsection \<open>Concrete machines\<close>

definition blank_machine :: kernel where
  "blank_machine = blank_kernel \<lparr>first = 0, g_gdt = replicate 6 (descriptor 0 0 0 0), g_tss = null_tss, gdt_register = None,
     seg_regs = (0, 0), task_register = 0, ticks = 0, send_char = 0, cr2 = 0, cr3 = 0, cr4 = 0, kfs_magic_number = 0,
     kfs_multiboot_info = 0\<rparr>"

definition wired_machine :: kernel where
  "wired_machine = blank_machine\<lparr>g_handlers := (replicate 256 None)[14 := Some Page_fault_handler, 32 := Some Pit_handler,
     33 := Some Keyboard_handler, 36 := Some Uart_handler]\<rparr>"

definition irq_regs :: "u32 \<Rightarrow> regs" where
  "irq_regs n = \<lparr>edi = 0, esi = 0, ebp = 0, esp = 0, ebx = 0, edx = 0, ecx = 0, eax = 0, ss = 0, gs = 0, fs = 0, es = 0, ds = 0,
     int_no = n, err_code = 0, eip = 0, cs = 0, eflags = 0, useresp = 0, user_ss = 0\<rparr>"

lemma wired_machine_wired: "wired wired_machine"
  by (simp add: wired_def wired_machine_def)

lemma blank_machine_fields [simp]:
  "length (g_handlers blank_machine) = 256" "length (g_gdt blank_machine) = 6" "uart_addr blank_machine = 0x3F8" "g_kds_size blank_machine = 0"
  by (simp_all add: blank_machine_def blank_kernel_def IDT_SIZE_def)



theorem irq_handler_devices_witness:
  "\<exists>s'. irq_handler (\<lambda>_ _. 0) (irq_regs 32) wired_machine = Some (Returned s') \<and> ticks s' = 1"
  using irq_handler_devices [OF wired_machine_wired, of "irq_regs 32" "\<lambda>_ _. 0"]
  by (auto simp: irq_regs_def wired_machine_def blank_machine_def blank_kernel_def)


theorem drivers_init_witness:
  "\<exists>s1 s2 s3. kb_init (\<lambda>t p. last_out 0xFF p t) (blank_machine\<lparr>uart_addr := 0\<rparr>) = Some s1 \<and> pit_init (\<lambda>t p. last_out 0xFF p t) 100 s1 = Some s2 \<and>
    uart_init (\<lambda>t p. last_out 0xFF p t) SERIAL_PORT s2 = Some s3 \<and> wired s3 \<and> \<not> line_masked 0xFF 0xFF (trace s3) 4"
proof -
  have "mask_readback 0xFF 0xFF (\<lambda>t p. last_out 0xFF p t)" by (simp add: mask_readback_def)
  from drivers_init [of "blank_machine\<lparr>uart_addr := 0\<rparr>", OF _ _ this] show ?thesis by (fastforce simp: SERIAL_PORT_def)
qed

theorem pit_init_divisor_witness:
  "\<exists>s' t lo hi. pit_init (\<lambda>_ _. 0) 100 blank_machine = Some s' \<and> trace s' = trace blank_machine @ t \<and> outs_to COUNTER_0 t = [lo, hi] \<and>
    unat lo + 256 * unat hi = 11931"
  using pit_init_divisor [of 100 blank_machine "\<lambda>_ _. 0"] by (auto simp: FREQUENCY_def)

lemma steady_ticks: "enough_ticks (\<lambda>_ _. [irq_regs 32])"
proof -
  have "ticks_upto (\<lambda>_. [irq_regs 32]) 100 = 101" by (simp add: ticks_upto_def timer_count_def irq_regs_def)
  then have "(100 :: u32) < of_nat (ticks_upto (\<lambda>_. [irq_regs 32]) 100)" by simp
  then show ?thesis unfolding enough_ticks_def by (auto simp: device_irqs_def irq_regs_def)
qed

theorem sleep_returns_witness:
  "\<exists>k s'. sleep (\<lambda>_ _. 0) (\<lambda>_. [irq_regs 32]) 1 wired_machine = Some (Returned s') \<and>
    ticks s' = ticks wired_machine + of_nat (ticks_upto (\<lambda>_. [irq_regs 32]) k) \<and> 100 < ticks_upto (\<lambda>_. [irq_regs 32]) k"
  using sleep_returns [OF wired_machine_wired, of "\<lambda>_. [irq_regs 32]" 1 "\<lambda>_ _. 0"] steady_ticks
  by (auto simp: enough_ticks_def)

text \<open>A machine with the boot loader's information at 0x9000 and a memory map of one entry at 0x9100.\<close>

definition loaded_machine :: kernel where
  "loaded_machine = blank_machine\<lparr>uart_addr := 0, mem := store32 (store32 (store32 (\<lambda>_. 0) (of_nat 0xC000902C) 24)
     (of_nat 0xC0009030) 0x9100) (of_nat 0xC0009104) 0x100000\<rparr>"

definition example_image :: image where
  "example_image = \<lparr>page_dir_addr = 0xC0101000, kernel_end_addr = 0xC0120000, gdt_vaddr = 0xC0106000, tss_vaddr = 0xC0107000,
     idt_vaddr = 0xC0108000, isr_vaddr = (\<lambda>n. 0xC0109000 + of_int n), main_userland_addr = 0x1000\<rparr>"

lemma loaded_reads:
  "load32 (mem loaded_machine) (of_nat 0xC000902C) = 24" "load32 (mem loaded_machine) (of_nat 0xC0009030) = 0x9100"
  "load32 (mem loaded_machine) (of_nat 0xC0009104) = 0x100000" "load32 (mem loaded_machine) (of_nat 0xC0009114) = 0"
  unfolding loaded_machine_def by (simp_all add: load32_store32_nat del: of_nat_numeral)

lemma loaded_boot_state: "boot_state example_image 0x9000 loaded_machine"
proof -
  have mbi: "mbi_mmap_length 0xC0009000 loaded_machine = 24" "mbi_mmap_addr 0xC0009000 loaded_machine = 0x9100"
    "mmap_base_addr_low 0xC0009100 loaded_machine = 0x100000" "mmap_type 0xC0009100 loaded_machine = 0"
    using loaded_reads by (simp_all add: mbi_mmap_length_def mbi_mmap_addr_def mmap_base_addr_low_def mmap_type_def ld_def)
  have cnt: "mmap_count 0xC0009000 loaded_machine = 1" by (simp add: mmap_count_def mbi)
  have base: "mmaps_of 0xC0009000 loaded_machine = 0xC0009100" by (simp add: mmaps_of_def mbi SYSTEM_ADDR_BASE_def)
  have "memory_map_ok 0xC0009000 loaded_machine"
    unfolding memory_map_ok_def cnt base by (simp add: map_entry_at_def mbi RAM_BASE_ADDR_def INT_MIN_def)
  then show ?thesis by (simp add: boot_state_def example_image_def dir_placed_def loaded_machine_def SYSTEM_ADDR_BASE_def)
qed


theorem find_ram_loop_last_witness:
  "\<exists>ram s'. find_ram_loop 0xC0009100 (of_nat 1) 0 NULL loaded_machine = Some (ram, s') \<and> ram = 0xC0009100"
proof -
  have m: "mmap_base_addr_low 0xC0009100 loaded_machine = RAM_BASE_ADDR" "mmap_type 0xC0009100 loaded_machine = 0"
    using loaded_reads by (simp_all add: mmap_base_addr_low_def mmap_type_def ld_def RAM_BASE_ADDR_def)
  then show ?thesis
    using find_ram_loop_last [of 1 "0xC0009100" loaded_machine] by (auto simp: map_entry_at_def INT_MIN_def)
qed

lemma running_machine: "\<exists>s :: kernel. kernel_ok s \<and> ret_found example_image s"
proof -
  let ?b = "booted \<lparr>first = 0, g_gdt = replicate 6 (descriptor 0 0 0 0), g_tss = null_tss, gdt_register = None,
     seg_regs = (0, 0), task_register = 0, ticks = 0, send_char = 0, cr2 = 0, cr3 = 0, cr4 = 0, kfs_magic_number = 0,
     kfs_multiboot_info = 0\<rparr>"
  let ?s = "?b\<lparr>uart_addr := 0x3F8, int_enabled := True, g_handlers := g_handlers wired_machine, mem := (mem ?b)(0x1000 := 0xC3)\<rparr>"
  have "brk_ok ?s"
  proof (rule brk_ok_cong [OF booted_ok(1)])
    fix y :: nat assume "0xC0100000 \<le> y" "y < 4294967296"
    then show "mem ?s (of_nat y) = mem ?b (of_nat y)" using of_nat_eq_32 [of y "0x1000"] by auto
  qed simp_all
  moreover have "ret_found example_image ?s" by (auto simp: ret_found_def example_image_def intro!: exI [of _ 0])
  ultimately show ?thesis using wired_machine_wired
    by (intro exI [of _ ?s]) (simp add: kernel_ok_def wired_def uart_is_init_iff)
qed

theorem run_kernel_loops_witness:
  "\<exists>s s'. run_kernel (\<lambda>_ _. 0) example_image (\<lambda>_ _. [irq_regs 32]) 5 (s :: kernel) = Some (Boot_running s') \<and> kernel_ok s' \<and> kds s' = kds s"
proof -
  obtain s :: kernel where "kernel_ok s" "ret_found example_image s" using running_machine by blast
  from run_kernel_loops [OF this steady_ticks, of "\<lambda>_ _. 0" 5] show ?thesis by blast
qed

end
