(* ===== verification/Spec2Isabelle.thy ===== *)
theory Spec2Isabelle
  imports Machines
begin

text \<open>
  \<^bold>\<open>kernel-x86.\<close> A model of a small 32-bit x86 kernel and of what makes it correct. The kernel is
  loaded by a multiboot loader, turns paging on, sets up segments, interrupt controllers, drivers
  and the interrupt table, builds a frame allocator from the loader's memory map, and then prints
  a line every second. Below its own code it has a kernel heap (\<open>kmalloc\<close>) on a break segment
  (\<open>sbrk\<close>), which takes frames from the frame allocator and maps them.

  \<^bold>\<open>Conventions.\<close> The state is one extensible record, extended theory by theory in the order in
  which the components depend on each other: \<open>machine\<close> (trace of port accesses, byte memory),
  \<open>uart\<close>, \<open>console\<close> (the counter of \<open>kprintf\<close>), \<open>irqs\<close> (tables of gates and handlers), \<open>kmem\<close> (page
  directory frame, frame pool, break), \<open>heap\<close>, \<open>segs\<close>, \<open>kernel\<close> (ticks, keyboard, control registers,
  boot context). Every operation is a function on the part of the state it needs and is
  polymorphic in the rest. Unsigned C integers are machine words, so that arithmetic wraps as in
  C; signed ones are integers, with the overflow written out where the code can reach it. Structures
  that the code reaches through pointers lie in the byte memory at their C offsets. An execution
  that faults, is undefined or does not return is \<^const>\<open>None\<close>; errors that the code reports are
  ordinary results; a kernel that spins in \<open>while (1);\<close> has the outcome \<open>Halted\<close>.

  \<^bold>\<open>Theories and sources\<close> (all paths below \<^verbatim>\<open>src/\<close>).
  \<^item> \<open>Prelude\<close>: C types (\<^verbatim>\<open>inc/types.h\<close>), word and list lemmas, the collections of simplification rules.
  \<^item> \<open>Memory\<close>: byte memory, 32-bit loads and stores, \<open>memset\<close> and \<open>memcpy\<close> (\<^verbatim>\<open>src/tools/string.c\<close>).
  \<^item> \<open>PortIO\<close>, \<open>Pic\<close>: port accesses (\<^verbatim>\<open>src/io.c\<close>) and the interrupt controllers (\<^verbatim>\<open>src/irq.c\<close>).
  \<^item> \<open>Printing\<close>, \<open>Uart\<close>, \<open>Kprintf\<close>: the interfaces of a character sink and of a digit printer, the UART
    (\<^verbatim>\<open>src/uart.c\<close>, \<^verbatim>\<open>src/tools.c\<close>), and formatted output (\<^verbatim>\<open>src/tools/kprintf\<close>, \<^verbatim>\<open>src/tools/kwrite\<close>).
    What \<open>kprintf\<close> sends is a pure function of the format and the arguments, \<open>render\<close>.
  \<^item> \<open>Interrupts\<close>: descriptor and handler tables (\<^verbatim>\<open>src/interrupts.c\<close>).
  \<^item> \<open>Paging\<close>, \<open>Frame\<close>, \<open>Pages\<close>: the operations of \<^verbatim>\<open>src/pages.c\<close> and \<^verbatim>\<open>src/frame.c\<close>.
  \<^item> \<open>FrameProps\<close>, \<open>PageTables\<close>, \<open>MapProps\<close>, \<open>Sbrk\<close>, \<open>BootPaging\<close>, \<open>Pool\<close>: their correctness. \<open>FrameProps\<close> has the
    interface \<open>frame_allocator\<close>, met by \<open>alloc_frame\<close> and \<open>alloc_frames\<close>; \<open>PageTables\<close> views directory,
    tables, frame array and user memory as arrays and states the invariant \<open>paging_ok\<close>; \<open>Sbrk\<close> has the
    interface \<open>break_segment\<close> and the invariant \<open>brk_ok\<close>; \<open>BootPaging\<close> shows that the boot code establishes
    the invariants and relates \<open>map_pages\<close> and \<open>get_physaddr\<close> to the translation of the MMU; \<open>Pool\<close> gives the
    frame pool after the boot, the conditions under which \<open>sbrk\<close> succeeds, and its two defects: all its
    pages are mapped to physical page 0, and what it gives back it cannot get again.
  \<^item> \<open>Kmalloc\<close>: the heap (\<^verbatim>\<open>src/kmalloc\<close>). \<open>HeapRep\<close> represents it by a list of blocks, \<open>HeapProps\<close> shows
    that each operation refines one on such lists, \<open>HeapSpec\<close> derives the interfaces \<open>block_allocator\<close>
    and \<open>deallocator\<close> over the set of blocks in use, and \<open>HeapClient\<close> has the properties, among them
    that every client which stays within its blocks is safe.
  \<^item> \<open>Vga\<close>, \<open>Serial\<close>, \<open>Segmentation\<close>: screen (\<^verbatim>\<open>src/vga.c\<close>), polling serial driver (\<^verbatim>\<open>src/serial_port.c\<close>, with
    the interface \<open>busy_wait\<close> for its two loops), segments (\<^verbatim>\<open>src/segmentation.c\<close>).
  \<^item> \<open>Drivers\<close>: timer, keyboard, UART interrupts, page faults and the dispatcher \<open>irq_handler\<close>
    (\<^verbatim>\<open>src/pit.c\<close>, \<^verbatim>\<open>src/kb.c\<close>, \<^verbatim>\<open>src/uart.c\<close>, \<^verbatim>\<open>src/tools/registers.c\<close>, \<^verbatim>\<open>src/interrupts.c\<close>, \<^verbatim>\<open>src/pages.c\<close>).
  \<^item> \<open>Kernel\<close>: \<open>sleep\<close> (\<^verbatim>\<open>src/time.c\<close>), \<open>main\<close> and \<open>main_new\<close> (\<^verbatim>\<open>src/main.c\<close>), \<open>enable_paging\<close> (\<^verbatim>\<open>src/crt0.S\<close>)
    and the debugging routines (\<^verbatim>\<open>src/test.c\<close>). \<open>KernelProps\<close> and \<open>BootProps\<close> compose the components:
    the boot reaches the final loop with all invariants and stays there.
  \<^item> \<open>Machines\<close>: concrete machines on which the properties of segments, drivers and boot are instantiated.

  \<^bold>\<open>Parameters.\<close> What a device answers to a read is the function \<open>dev\<close> of the accesses so far. The addresses
  chosen by the linker are arguments or the record \<open>image\<close>; the stack pointer that \<open>init_flat_gdt\<close> stores
  is an argument. The interrupts that arrive while \<open>sleep\<close> waits are explicit lists; elsewhere the model
  takes the code as running without interruption.

  \<^bold>\<open>Bounds.\<close> Requests to the heap are below \<open>0x3FFF0000\<close> bytes: from there on the sum of headers, pages and the
  request can wrap. \<open>free\<close> is specified on heaps of less than 2 GB, since the pages to give back are a
  signed argument of \<open>sbrk\<close>. The frame pool has at most \<open>2 ^ 20\<close> entries, which is every pool of a 4 GB
  address space. Loops are recursive functions with a termination proof, except for those that can
  run forever (waits for a device or a tick, the walk over the heap, the search for a \<open>ret\<close>), which are
  partial functions into \<^typ>\<open>'a option\<close>; that they return is proved. The final loop of the kernel is given
  by the state after any number of rounds.

  \<^bold>\<open>Not modelled.\<close> The interrupt entry stubs (\<^verbatim>\<open>src/isr_handler.S\<close>) and the start-up code before \<open>main\<close>, which
  are assembly; \<open>switch_to_userland\<close>, which nothing calls; the translation caches of the processor, so that
  \<open>invlpg\<close> has no effect; the additional output of a build with \<open>DEBUG\<close>; the linker script and the build files.
  Memory is indexed by kernel virtual addresses; that the heap's pages, because of the frame addresses
  that are never set, are all mapped to physical page 0 is a fact about the page tables here
  (\<open>sbrk_maps_page_zero\<close>) and not reflected in the contents of the heap:
  the properties of the heap are those of a kernel whose frames have their own addresses.
\<close>

end
